theory Spec2Isabelle
  imports Main "HOL-Library.Word"
begin

section \<open>The DNS messages the cache server handles\<close>

text \<open>
  The server works on \<^verbatim>\<open>*dns.Msg\<close> values of the DNS library. The fields
  the server reads or writes are kept with the library's names: the transaction
  identifier \<^verbatim>\<open>Id\<close>, the question section and the answer section. Widths are the
  library's: \<^verbatim>\<open>uint16\<close> for identifiers, types and classes, \<^verbatim>\<open>uint32\<close>
  for the time to live. Strings are byte lists, as Go strings are.
\<close>

record Question =
  Name :: string
  Qtype :: "16 word"
  Qclass :: "16 word"

record RR_Header =
  Name :: string
  Rrtype :: "16 word"
  Class :: "16 word"
  Ttl :: "32 word"

record RR =
  Header :: RR_Header
  Rdata :: string

record Msg =
  Id :: "16 word"
  Response :: bool
  Rcode :: nat
  Question :: "Question list"
  Answer :: "RR list"
  Ns :: "RR list"
  Extra :: "RR list"

definition TypeA :: "16 word" where
  "TypeA = 1"

definition TypeAAAA :: "16 word" where
  "TypeAAAA = 28"

text \<open>
  Message objects are shared through pointers: the cache keeps the pointer it was
  given, and the handler writes through the pointer a lookup returns. A pointer is
  an address, and the objects live in a store from addresses to messages. There
  is no nil pointer among the addresses: the handler only holds the pointer of an
  exchange that returned no error, which the library does not leave nil, or a
  pointer it took from the cache.
\<close>

type_synonym ref = nat

text \<open>
  An instant is a reading of the clock, counted in nanoseconds as
  \<^verbatim>\<open>time.Duration\<close> is. Readings are integers without a bound: the instants a
  process meets are far from the ends of the range of \<^verbatim>\<open>time.Time\<close>. The
  duration added to a reading is the 64-bit number the program computes.
\<close>

type_synonym instant = int

datatype error =
    NoKey Msg
  | NoResponse Msg
  | Unsupported string
  | NetError string

datatype panic = IndexOutOfRange

section \<open>The server's objects and its surroundings\<close>

text \<open>
  An upstream is a \<^verbatim>\<open>DNSServer\<close>: a client of the DNS library for one transport
  (\<^verbatim>\<open>client.Net\<close>) and the address it talks to. A cache item is the instant it
  times out and the pointer to the reply. The \<^verbatim>\<open>CacheServer\<close> holds the listen
  addresses and the upstreams; its \<^verbatim>\<open>cache\<close> field points to the one
  \<^verbatim>\<open>DNSCache\<close> of the state below. The mutex of the cache is not modelled: every
  function here runs alone.
\<close>

record DNSServer =
  clientNet :: string
  addr :: string

record DNSCacheItem =
  timeOut :: instant
  resp :: ref

record CacheServer =
  listenAddrs :: "string list"
  servers :: "DNSServer list"

text \<open>
  The method value \<^verbatim>\<open>cs.processDNSMsg\<close> is a handler bound to the receiver
  \<^verbatim>\<open>cs\<close>, a pointer; it is named by that pointer. A \<^verbatim>\<open>dns.Server\<close> has an
  address, a transport and a handler of its own, which may be absent.
\<close>

datatype handler = ProcessDNSMsg ref

record Server =
  Addr :: string
  Net :: string
  Handler :: "handler option"

text \<open>
  What the program does to the outside is kept as a list of events, oldest first:
  the calls of the logger (level, message, fields), the exchanges with upstreams,
  the replies written to the requester (the message as it is when written), and the
  listeners started. A field \<open>MsgField k m\<close> is \<^verbatim>\<open>zap.String(k, fmt.Sprintf("%v", m))\<close>.
\<close>

datatype level = DebugLevel | InfoLevel | ErrorLevel

datatype field = StrField string string | MsgField string Msg

datatype event =
    Logged level string "field list"
  | Exchanged DNSServer Msg
  | Wrote Msg
  | Listened Server

text \<open>
  \<^verbatim>\<open>ListenAndServe\<close> either serves for as long as the process lives and never
  returns, or returns an error or \<^verbatim>\<open>nil\<close>.
\<close>

datatype lns = Serving | Returned "error option"

text \<open>
  The state: the message objects (\<open>heap\<close>) with the next unused address, the map of
  the cache, the handler table of the DNS library that the package-level
  \<^verbatim>\<open>dns.HandleFunc\<close> writes (its \<^verbatim>\<open>DefaultServeMux\<close>), the events so far,
  and the world outside (clock, network, sockets).
\<close>

record 'w state =
  heap :: "ref \<Rightarrow> Msg"
  nxt :: ref
  cache :: "string \<rightharpoonup> DNSCacheItem"
  mux :: "string \<rightharpoonup> handler"
  events :: "event list"
  world :: 'w

text \<open>
  The world answers three calls: \<^verbatim>\<open>time.Now()\<close>, the exchange of a library client
  (transport, address, query) and \<^verbatim>\<open>ListenAndServe\<close> of a library server. The
  last two change the world. An exchange without error yields a message; the
  program ignores the message of an exchange with an error.
\<close>

record 'w env =
  Now :: "'w \<Rightarrow> instant"
  ClientExchange :: "string \<Rightarrow> string \<Rightarrow> Msg \<Rightarrow> 'w \<Rightarrow> (error + Msg) \<times> 'w"
  ListenAndServe :: "Server \<Rightarrow> 'w \<Rightarrow> lns \<times> 'w"

definition zlog :: "level \<Rightarrow> string \<Rightarrow> field list \<Rightarrow> 'w state \<Rightarrow> 'w state" where
  "zlog l m fs s = s\<lparr>events := events s @ [Logged l m fs]\<rparr>"

definition WriteMsg :: "ref \<Rightarrow> 'w state \<Rightarrow> 'w state" where
  "WriteMsg r s = s\<lparr>events := events s @ [Wrote (heap s r)]\<rparr>"

section \<open>Formatting and prefixes\<close>

text \<open>
  \<^verbatim>\<open>%d\<close> of an unsigned number: its decimal digits, most significant first.
  \<open>digit\<close> is only applied to numbers below ten.
\<close>

definition digit :: "nat \<Rightarrow> char" where
  "digit n = ''0123456789'' ! n"

function fmtD :: "nat \<Rightarrow> string" where
  "fmtD n = (if n < 10 then [digit n] else fmtD (n div 10) @ [digit (n mod 10)])"
  by pat_completeness auto
termination
  by (relation "measure id") auto

declare fmtD.simps [simp del]

text \<open>\<^verbatim>\<open>strings.HasPrefix(s, p)\<close>: \<^verbatim>\<open>len(s) >= len(p) && s[0:len(p)] == p\<close>.\<close>

definition HasPrefix :: "string \<Rightarrow> string \<Rightarrow> bool" where
  "HasPrefix s p = (length p \<le> length s \<and> take (length p) s = p)"

section \<open>Address parsing\<close>

text \<open>
  \<^verbatim>\<open>parseListenAddr\<close> returns the protocol, the address and an error; the error
  is \<^verbatim>\<open>nil\<close> (\<open>None\<close>) on each of its three returns. \<^verbatim>\<open>listenAddr[4:]\<close> is
  the string without its first four bytes, and it is in range on both branches that
  take it, since the prefix found there is four bytes long.
\<close>

definition parseListenAddr :: "string \<Rightarrow> string \<times> string \<times> error option" where
  "parseListenAddr listenAddr =
     (if HasPrefix listenAddr ''udp:'' then (''udp'', drop 4 listenAddr, None)
      else if HasPrefix listenAddr ''tcp:'' then (''tcp'', drop 4 listenAddr, None)
      else (''udp'', listenAddr, None))"

definition parseDNSServerAddr :: "string \<Rightarrow> string \<times> string \<times> error option" where
  "parseDNSServerAddr dnsServerAddr = parseListenAddr dnsServerAddr"

section \<open>Cache keys\<close>

text \<open>
  \<^verbatim>\<open>getKey\<close>: a query with exactly one question of type AAAA or A has the key
  \<^verbatim>\<open>fmt.Sprintf("%s-%d", question.Name, question.Qtype)\<close>; any other query has
  the error \<^verbatim>\<open>No key for ...\<close>.
\<close>

definition getKey :: "Msg \<Rightarrow> error + string" where
  "getKey req =
     (case Question req of
        [question] \<Rightarrow>
          if Qtype question = TypeAAAA \<or> Qtype question = TypeA
          then Inr (Question.Name question @ ''-'' @ fmtD (unat (Qtype question)))
          else Inl (NoKey req)
      | _ \<Rightarrow> Inl (NoKey req))"

section \<open>Cache items and their expiry\<close>

text \<open>
  \<^verbatim>\<open>time.Duration(ttl) * time.Second\<close>: the 32-bit time to live widened to the
  64-bit signed duration and multiplied there by \<open>10\<^sup>9\<close>, with the wrap-around
  of the machine; the duration is then read as a signed number.
\<close>

definition Second :: "64 word" where
  "Second = 1000000000"

definition ttlDuration :: "32 word \<Rightarrow> 64 word" where
  "ttlDuration ttl = ucast ttl * Second"

text \<open>
  \<^verbatim>\<open>NewDNSCacheItem(resp)\<close> at the instant \<open>now\<close> read from the clock:
  \<^verbatim>\<open>resp.Answer[0]\<close> panics on an empty answer section.
\<close>

definition NewDNSCacheItem :: "instant \<Rightarrow> (ref \<Rightarrow> Msg) \<Rightarrow> ref \<Rightarrow> panic + DNSCacheItem" where
  "NewDNSCacheItem now h r =
     (case Answer (h r) of
        [] \<Rightarrow> Inl IndexOutOfRange
      | rr # _ \<Rightarrow> Inr \<lparr>timeOut = now + sint (ttlDuration (Ttl (Header rr))), resp = r\<rparr>)"

text \<open>\<^verbatim>\<open>time.Now().After(dci.timeOut)\<close>: the clock is strictly after the time-out.\<close>

definition isTimeout :: "instant \<Rightarrow> DNSCacheItem \<Rightarrow> bool" where
  "isTimeout now dci = (timeOut dci < now)"

definition NewDNSCache :: "string \<rightharpoonup> DNSCacheItem" where
  "NewDNSCache = Map.empty"

section \<open>Lookup and store\<close>

text \<open>
  \<^verbatim>\<open>findResponse\<close> at the instant \<open>now\<close>: with a key and an item under it, a
  timed-out item is deleted and the lookup fails; any other item is logged and its
  pointer returned. Every other path fails and leaves the state as it is.
\<close>

definition findResponse :: "instant \<Rightarrow> Msg \<Rightarrow> 'w state \<Rightarrow> (error + ref) \<times> 'w state" where
  "findResponse now req s =
     (case getKey req of
        Inr key \<Rightarrow>
          (case cache s key of
             Some item \<Rightarrow>
               if isTimeout now item
               then (Inl (NoResponse req), s\<lparr>cache := (cache s)(key := None)\<rparr>)
               else (Inr (resp item),
                     zlog DebugLevel ''find response from cache''
                       [MsgField ''req'' req, MsgField ''resp'' (heap s (resp item))] s)
           | None \<Rightarrow> (Inl (NoResponse req), s))
      | Inl err \<Rightarrow> (Inl (NoResponse req), s))"

text \<open>
  \<^verbatim>\<open>cacheResponse\<close> at the instant \<open>now\<close>: with an answer record and a key, the
  store is logged, the item built and put under the key.
\<close>

definition cacheResponse :: "instant \<Rightarrow> Msg \<Rightarrow> ref \<Rightarrow> 'w state \<Rightarrow> panic + 'w state" where
  "cacheResponse now req r s =
     (if length (Answer (heap s r)) > 0 then
        (case getKey req of
           Inr key \<Rightarrow>
             (let s1 = zlog DebugLevel ''cache response''
                         [MsgField ''req'' req, MsgField ''resp'' (heap s r)] s
              in case NewDNSCacheItem now (heap s1) r of
                   Inl p \<Rightarrow> Inl p
                 | Inr item \<Rightarrow> Inr (s1\<lparr>cache := (cache s1)(key \<mapsto> item)\<rparr>))
         | Inl err \<Rightarrow> Inr s)
      else Inr s)"

section \<open>Upstreams\<close>

definition NewDNSServer :: "string \<Rightarrow> 'w state \<Rightarrow> (error + DNSServer) \<times> 'w state" where
  "NewDNSServer server s =
     (case parseDNSServerAddr server of
        (proto, a, Some err) \<Rightarrow>
          (Inl err, zlog ErrorLevel ''fail to parse server address'' [StrField ''address'' server] s)
      | (proto, a, None) \<Rightarrow> (Inr \<lparr>clientNet = proto, addr = a\<rparr>, s))"

text \<open>
  \<^verbatim>\<open>ds.Exchange(req)\<close>: the exchange of the client with the upstream's address.
  A reply is a new message object, at an address not used before.
\<close>

definition Exchange :: "'w env \<Rightarrow> DNSServer \<Rightarrow> Msg \<Rightarrow> 'w state \<Rightarrow> (error + ref) \<times> 'w state" where
  "Exchange env ds req s =
     (let s1 = s\<lparr>events := events s @ [Exchanged ds req]\<rparr>
      in case ClientExchange env (clientNet ds) (addr ds) req (world s1) of
           (Inl err, w) \<Rightarrow> (Inl err, s1\<lparr>world := w\<rparr>)
         | (Inr m, w) \<Rightarrow>
             (Inr (nxt s1), s1\<lparr>heap := (heap s1)(nxt s1 := m), nxt := Suc (nxt s1), world := w\<rparr>))"

text \<open>
  \<^verbatim>\<open>NewCacheServer\<close>: the loop over the configured upstream strings keeps the
  upstreams built without error, in order; the cache starts empty.
\<close>

fun newServers :: "string list \<Rightarrow> 'w state \<Rightarrow> DNSServer list \<times> 'w state" where
  "newServers [] s = ([], s)"
| "newServers (server # rest) s =
     (case NewDNSServer server s of
        (Inl err, s1) \<Rightarrow> newServers rest s1
      | (Inr dnsServer, s1) \<Rightarrow>
          (case newServers rest s1 of (dnsServers, s2) \<Rightarrow> (dnsServer # dnsServers, s2)))"

definition NewCacheServer :: "string list \<Rightarrow> string list \<Rightarrow> 'w state \<Rightarrow> CacheServer \<times> 'w state" where
  "NewCacheServer las srvs s =
     (case newServers srvs s of
        (dnsServers, s1) \<Rightarrow>
          (\<lparr>listenAddrs = las, servers = dnsServers\<rparr>, s1\<lparr>cache := NewDNSCache\<rparr>))"

section \<open>The request handler\<close>

text \<open>
  The loop of \<^verbatim>\<open>processDNSMsg\<close> over the upstreams either returns from the
  handler (\<open>Return\<close>) or runs to its end (\<open>Fallthrough\<close>). The clock is read by
  \<^verbatim>\<open>NewDNSCacheItem\<close>, after the exchange.
\<close>

datatype 'a ctl = Return 'a | Fallthrough 'a

fun forLoop :: "'w env \<Rightarrow> DNSServer list \<Rightarrow> Msg \<Rightarrow> 'w state \<Rightarrow> panic + 'w state ctl" where
  "forLoop env [] req s = Inr (Fallthrough s)"
| "forLoop env (server # rest) req s =
     (case Exchange env server req s of
        (Inr r, s1) \<Rightarrow>
          (case cacheResponse (Now env (world s1)) req r s1 of
             Inl p \<Rightarrow> Inl p
           | Inr s2 \<Rightarrow>
               Inr (Return (WriteMsg r
                 (zlog InfoLevel ''succeed to get response'' [MsgField ''response'' (heap s2 r)] s2))))
      | (Inl err, s1) \<Rightarrow> forLoop env rest req s1)"

declare forLoop.simps(2) [simp del]

definition processDNSMsg :: "'w env \<Rightarrow> CacheServer \<Rightarrow> Msg \<Rightarrow> 'w state \<Rightarrow> panic + 'w state" where
  "processDNSMsg env cs req s =
     (let s0 = zlog DebugLevel ''process request'' [MsgField ''request'' req] s
      in case findResponse (Now env (world s0)) req s0 of
           (Inr r, s1) \<Rightarrow>
             (let s2 = s1\<lparr>heap := (heap s1)(r := (heap s1 r)\<lparr>Id := Id req\<rparr>)\<rparr>
              in Inr (WriteMsg r s2))
         | (Inl err, s1) \<Rightarrow>
             (case forLoop env (servers cs) req s1 of
                Inl p \<Rightarrow> Inl p
              | Inr (Return s2) \<Rightarrow> Inr s2
              | Inr (Fallthrough s2) \<Rightarrow>
                  Inr (zlog ErrorLevel ''fail to process request'' [MsgField ''request'' req] s2)))"

section \<open>Starting the listeners\<close>

text \<open>
  \<^verbatim>\<open>dns.HandleFunc(pattern, h)\<close> is the package-level registration of the DNS
  library: it puts the handler under the pattern in the library's one default
  table, over what was there. A library server without a handler of its own serves
  with that table, and the root pattern matches every name: \<open>serving s srv\<close> is the
  handler the listener \<open>srv\<close> calls for a query when only the root pattern is
  registered, as it is in this program.
\<close>

definition HandleFunc :: "string \<Rightarrow> handler \<Rightarrow> 'w state \<Rightarrow> 'w state" where
  "HandleFunc pattern h s = s\<lparr>mux := (mux s)(pattern \<mapsto> h)\<rparr>"

definition serving :: "'w state \<Rightarrow> Server \<Rightarrow> handler option" where
  "serving s srv = (case Handler srv of Some h \<Rightarrow> Some h | None \<Rightarrow> mux s ''.'')"

definition listenAndServe :: "'w env \<Rightarrow> Server \<Rightarrow> 'w state \<Rightarrow> lns \<times> 'w state" where
  "listenAndServe env srv s =
     (case ListenAndServe env srv (world s) of
        (r, w) \<Rightarrow> (r, s\<lparr>events := events s @ [Listened srv], world := w\<rparr>))"

definition startUDPServer :: "'w env \<Rightarrow> string \<Rightarrow> 'w state \<Rightarrow> lns \<times> 'w state" where
  "startUDPServer env a s =
     (let udpServer = \<lparr>Addr = a, Net = ''udp'', Handler = None\<rparr>
      in listenAndServe env udpServer
           (zlog InfoLevel ''start udp DNS server'' [StrField ''address'' a] s))"

definition startTCPServer :: "'w env \<Rightarrow> string \<Rightarrow> 'w state \<Rightarrow> lns \<times> 'w state" where
  "startTCPServer env a s =
     (let tcpServer = \<lparr>Addr = a, Net = ''tcp'', Handler = None\<rparr>
      in listenAndServe env tcpServer
           (zlog InfoLevel ''start tcp DNS server'' [StrField ''address'' a] s))"

text \<open>
  \<^verbatim>\<open>start\<close> of the server at address \<open>this\<close>, over its listen addresses. A
  listener that serves never returns, and neither does \<^verbatim>\<open>start\<close> then
  (\<open>Serving\<close>); a listener that returns \<^verbatim>\<open>nil\<close> lets the loop go on.
\<close>

fun startLoop :: "'w env \<Rightarrow> ref \<Rightarrow> string list \<Rightarrow> 'w state \<Rightarrow> lns \<times> 'w state" where
  "startLoop env this [] s = (Returned None, s)"
| "startLoop env this (listenAddr # rest) s =
     (case parseListenAddr listenAddr of
        (proto, a, Some err) \<Rightarrow>
          (Returned (Some err),
           zlog ErrorLevel ''Fail to parse the listen address'' [StrField ''address'' listenAddr] s)
      | (proto, a, None) \<Rightarrow>
          (let s1 = HandleFunc ''.'' (ProcessDNSMsg this) s
           in if proto = ''udp'' then
                (case startUDPServer env a s1 of
                   (Returned None, s2) \<Rightarrow> startLoop env this rest s2
                 | (r, s2) \<Rightarrow> (r, s2))
              else if proto = ''tcp'' then
                (case startTCPServer env a s1 of
                   (Returned None, s2) \<Rightarrow> startLoop env this rest s2
                 | (r, s2) \<Rightarrow> (r, s2))
              else
                (Returned (Some (Unsupported proto)),
                 zlog ErrorLevel ''Unsupported protocol'' [StrField ''protocol'' proto] s1)))"

declare startLoop.simps(2) [simp del]

definition start :: "'w env \<Rightarrow> ref \<Rightarrow> CacheServer \<Rightarrow> 'w state \<Rightarrow> lns \<times> 'w state" where
  "start env this cs s = startLoop env this (listenAddrs cs) s"

section \<open>The earlier cache server\<close>

text \<open>
  The embedding above is the cache server that \<^verbatim>\<open>main.go\<close> calls, with a list of
  listen addresses and one \<^verbatim>\<open>DNSServer\<close> per upstream. The file
  \<^verbatim>\<open>cache_server.go\<close> holds its earlier form: one listen address, the upstreams
  kept as strings and parsed at each request (the error of the parse is dropped),
  and a log line before each exchange. \<^verbatim>\<open>getKey\<close>, \<^verbatim>\<open>findResponse\<close>,
  \<^verbatim>\<open>cacheResponse\<close> and the parsers are the same in both. The names of the earlier
  form end in \<open>0\<close>, those of its two fields as well.
\<close>

record CacheServer0 =
  listenAddr0 :: string
  servers0 :: "string list"

definition NewCacheServer0 :: "string \<Rightarrow> string list \<Rightarrow> 'w state \<Rightarrow> CacheServer0 \<times> 'w state" where
  "NewCacheServer0 la srvs s = (\<lparr>listenAddr0 = la, servers0 = srvs\<rparr>, s\<lparr>cache := NewDNSCache\<rparr>)"

definition start0 :: "'w env \<Rightarrow> ref \<Rightarrow> CacheServer0 \<Rightarrow> 'w state \<Rightarrow> lns \<times> 'w state" where
  "start0 env this cs s =
     (case parseListenAddr (listenAddr0 cs) of
        (proto, a, Some err) \<Rightarrow>
          (Returned (Some err),
           zlog ErrorLevel ''Fail to parse the listen address'' [StrField ''address'' (listenAddr0 cs)] s)
      | (proto, a, None) \<Rightarrow>
          (let s1 = HandleFunc ''.'' (ProcessDNSMsg this) s
           in if proto = ''udp'' then startUDPServer env a s1
              else if proto = ''tcp'' then startTCPServer env a s1
              else
                (Returned (Some (Unsupported proto)),
                 zlog ErrorLevel ''Unsupported protocol'' [StrField ''protocol'' proto] s1)))"

fun forLoop0 :: "'w env \<Rightarrow> string list \<Rightarrow> Msg \<Rightarrow> 'w state \<Rightarrow> panic + 'w state ctl" where
  "forLoop0 env [] req s = Inr (Fallthrough s)"
| "forLoop0 env (server # rest) req s =
     (case parseDNSServerAddr server of
        (proto, a, err) \<Rightarrow>
          (let s0 = zlog InfoLevel ''send request to DNS server'' [StrField ''server'' server] s
           in case Exchange env \<lparr>clientNet = proto, addr = a\<rparr> req s0 of
                (Inr r, s1) \<Rightarrow>
                  (case cacheResponse (Now env (world s1)) req r s1 of
                     Inl p \<Rightarrow> Inl p
                   | Inr s2 \<Rightarrow>
                       Inr (Return (WriteMsg r
                         (zlog InfoLevel ''succeed to get response''
                            [MsgField ''response'' (heap s2 r)] s2))))
              | (Inl err', s1) \<Rightarrow> forLoop0 env rest req s1))"

definition processDNSMsg0 :: "'w env \<Rightarrow> CacheServer0 \<Rightarrow> Msg \<Rightarrow> 'w state \<Rightarrow> panic + 'w state" where
  "processDNSMsg0 env cs req s =
     (let s0 = zlog DebugLevel ''process request'' [MsgField ''request'' req] s
      in case findResponse (Now env (world s0)) req s0 of
           (Inr r, s1) \<Rightarrow>
             (let s2 = s1\<lparr>heap := (heap s1)(r := (heap s1 r)\<lparr>Id := Id req\<rparr>)\<rparr>
              in Inr (WriteMsg r s2))
         | (Inl err, s1) \<Rightarrow>
             (case forLoop0 env (servers0 cs) req s1 of
                Inl p \<Rightarrow> Inl p
              | Inr (Return s2) \<Rightarrow> Inr s2
              | Inr (Fallthrough s2) \<Rightarrow>
                  Inr (zlog ErrorLevel ''fail to process request'' [MsgField ''request'' req] s2)))"

text \<open>
  To compare the two forms: the upstream an address string stands for, and the
  state without the log lines that only the earlier form writes.
\<close>

definition upstream :: "string \<Rightarrow> DNSServer" where
  "upstream server =
     \<lparr>clientNet = fst (parseDNSServerAddr server), addr = fst (snd (parseDNSServerAddr server))\<rparr>"

definition sendLine :: "event \<Rightarrow> bool" where
  "sendLine e = (case e of Logged l m fs \<Rightarrow> l = InfoLevel \<and> m = ''send request to DNS server'' | _ \<Rightarrow> False)"

definition hush :: "'w state \<Rightarrow> 'w state" where
  "hush s = s\<lparr>events := filter (\<lambda>e. \<not> sendLine e) (events s)\<rparr>"

section \<open>Notions used to state the properties\<close>

text \<open>
  \<open>allFail env us req w\<close> runs the exchanges with the upstreams \<open>us\<close> one after the
  other from the world \<open>w\<close>: it is the world after them when each one returned an
  error, and \<open>None\<close> as soon as one of them succeeds.
\<close>

fun allFail :: "'w env \<Rightarrow> DNSServer list \<Rightarrow> Msg \<Rightarrow> 'w \<Rightarrow> 'w option" where
  "allFail env [] req w = Some w"
| "allFail env (u # us) req w =
     (case ClientExchange env (clientNet u) (addr u) req w of
        (Inl err, w') \<Rightarrow> allFail env us req w'
      | (Inr m, w') \<Rightarrow> None)"

text \<open>
  One turn of the loop of \<^verbatim>\<open>start\<close> on its two branches that start a listener:
  the registration of the handler, the log line, the listener. Lemma
  \<open>startLoop_Cons\<close> below shows that every turn of \<open>startLoop\<close> is such a turn.
\<close>

definition startStep :: "'w env \<Rightarrow> ref \<Rightarrow> string \<Rightarrow> 'w state \<Rightarrow> lns \<times> 'w state" where
  "startStep env this listenAddr s =
     (let proto = fst (parseListenAddr listenAddr); a = fst (snd (parseListenAddr listenAddr));
          srv = \<lparr>Addr = a, Net = proto, Handler = None\<rparr>
      in (fst (ListenAndServe env srv (world s)),
          s\<lparr>mux := (mux s)(''.'' \<mapsto> ProcessDNSMsg this),
            events := events s @
              [Logged InfoLevel (''start '' @ proto @ '' DNS server'') [StrField ''address'' a],
               Listened srv],
            world := snd (ListenAndServe env srv (world s))\<rparr>))"

text \<open>
  The events a turn of \<^verbatim>\<open>start\<close> leaves: log lines at level Info and listeners
  without a handler of their own. \<open>errorLogged\<close> holds of the log lines at level
  Error.
\<close>

definition startEvent :: "event \<Rightarrow> bool" where
  "startEvent e =
     (case e of Logged l m fs \<Rightarrow> l = InfoLevel | Listened srv \<Rightarrow> Handler srv = None | _ \<Rightarrow> False)"

definition errorLogged :: "event \<Rightarrow> bool" where
  "errorLogged e = (case e of Logged l m fs \<Rightarrow> l = ErrorLevel | _ \<Rightarrow> False)"

text \<open>
  A state is well formed when every pointer kept in the cache is below the next
  unused address, so that the object of a new reply is no object of the cache.
\<close>

definition wellFormed :: "'w state \<Rightarrow> bool" where
  "wellFormed s = (\<forall>key item. cache s key = Some item \<longrightarrow> resp item < nxt s)"

section \<open>A small installation\<close>

text \<open>
  A query for the A record of \<^verbatim>\<open>example.com.\<close>, a reply to it whose first answer
  lives 60 seconds, a query for an MX record and a query with two questions. The
  world of the example is its clock, in nanoseconds; an exchange takes one
  nanosecond, and only the upstream at \<^verbatim>\<open>10.0.0.3:53\<close> answers, with the
  identifier of the query as the library requires. Only the socket
  \<^verbatim>\<open>0.0.0.0:53\<close> can be bound. The object at address 0 is a reply received for an
  earlier query, with that query's identifier 3.
\<close>

definition exQuestion :: Question where
  "exQuestion = \<lparr>Question.Name = ''example.com.'', Qtype = 1, Qclass = 1\<rparr>"

definition exQuery :: Msg where
  "exQuery = \<lparr>Id = 7, Response = False, Rcode = 0, Question = [exQuestion],
     Answer = [], Ns = [], Extra = []\<rparr>"

definition exQueryMX :: Msg where
  "exQueryMX = \<lparr>Id = 8, Response = False, Rcode = 0,
     Question = [\<lparr>Question.Name = ''example.com.'', Qtype = 15, Qclass = 1\<rparr>],
     Answer = [], Ns = [], Extra = []\<rparr>"

definition exQueryTwo :: Msg where
  "exQueryTwo = \<lparr>Id = 9, Response = False, Rcode = 0, Question = [exQuestion, exQuestion],
     Answer = [], Ns = [], Extra = []\<rparr>"

definition exRR :: RR where
  "exRR = \<lparr>Header = \<lparr>Name = ''example.com.'', Rrtype = 1, Class = 1, Ttl = 60\<rparr>,
            Rdata = ''93.184.216.34''\<rparr>"

definition exReply :: Msg where
  "exReply = \<lparr>Id = 3, Response = True, Rcode = 0, Question = [exQuestion],
     Answer = [exRR], Ns = [], Extra = []\<rparr>"

definition exEmptyReply :: Msg where
  "exEmptyReply = \<lparr>Id = 3, Response = True, Rcode = 3, Question = [exQuestion],
     Answer = [], Ns = [], Extra = []\<rparr>"

definition exEnv :: "nat env" where
  "exEnv = \<lparr>Now = int,
     ClientExchange = (\<lambda>net a req w.
        (if a = ''10.0.0.3:53'' then Inr (exReply\<lparr>Id := Id req\<rparr>)
         else Inl (NetError ''i/o timeout''), Suc w)),
     ListenAndServe = (\<lambda>srv w.
        (if Addr srv = ''0.0.0.0:53'' then Serving
         else Returned (Some (NetError ''bind: address already in use'')), w))\<rparr>"

definition exState :: "nat state" where
  "exState = \<lparr>heap = (\<lambda>r. if r = 0 then exReply else exEmptyReply), nxt = 2,
     cache = Map.empty, mux = Map.empty, events = [], world = 0\<rparr>"

definition U1 :: DNSServer where
  "U1 = \<lparr>clientNet = ''udp'', addr = ''10.0.0.1:53''\<rparr>"

definition U2 :: DNSServer where
  "U2 = \<lparr>clientNet = ''tcp'', addr = ''10.0.0.2:53''\<rparr>"

definition U3 :: DNSServer where
  "U3 = \<lparr>clientNet = ''udp'', addr = ''10.0.0.3:53''\<rparr>"

text \<open>
  Two servers over these upstreams; a state whose cached entry for the query timed
  out at instant 5, seen at instant 10; a state whose entry is good until second
  60, seen at second 30; a state in which the server at address 1 has registered
  its handler, one of its listeners, and a second server, at address 2.
\<close>

definition exCS :: CacheServer where
  "exCS = \<lparr>listenAddrs = [''udp:0.0.0.0:53''], servers = [U1, U2, U3]\<rparr>"

definition exFailing :: CacheServer where
  "exFailing = \<lparr>listenAddrs = [''udp:0.0.0.0:53''], servers = [U1, U2]\<rparr>"

definition exExpired :: "nat state" where
  "exExpired = exState\<lparr>cache := [''example.com.-1'' \<mapsto> \<lparr>timeOut = 5, resp = 0\<rparr>], world := 10\<rparr>"

definition exCached :: "nat state" where
  "exCached = exState\<lparr>cache := [''example.com.-1'' \<mapsto> \<lparr>timeOut = 60000000000, resp = 0\<rparr>],
     world := 30000000000\<rparr>"

definition exStarted :: "nat state" where
  "exStarted = exState\<lparr>mux := [''.'' \<mapsto> ProcessDNSMsg 1]\<rparr>"

definition exListener :: Server where
  "exListener = \<lparr>Addr = ''0.0.0.0:53'', Net = ''udp'', Handler = None\<rparr>"

definition exOther :: CacheServer where
  "exOther = \<lparr>listenAddrs = [''tcp:0.0.0.0:5353''], servers = [U3]\<rparr>"

section \<open>Formatting facts\<close>

lemma fmtD_1: "fmtD 1 = ''1''"
  by (subst fmtD.simps) (simp add: digit_def)

lemma fmtD_Suc_0: "fmtD (Suc 0) = ''1''"
  using fmtD_1 by simp

lemma fmtD_28: "fmtD 28 = ''28''"
  by (simp add: fmtD.simps [of 28] fmtD.simps [of 2] digit_def)

section \<open>Updates of different fields of the state commute\<close>

lemma state_update_order [simp]:
  "heap_update f0 (nxt_update f1 s) = nxt_update f1 (heap_update f0 s)"
  "heap_update f0 (cache_update f2 s) = cache_update f2 (heap_update f0 s)"
  "heap_update f0 (mux_update f3 s) = mux_update f3 (heap_update f0 s)"
  "heap_update f0 (events_update f4 s) = events_update f4 (heap_update f0 s)"
  "heap_update f0 (world_update f5 s) = world_update f5 (heap_update f0 s)"
  "nxt_update f1 (cache_update f2 s) = cache_update f2 (nxt_update f1 s)"
  "nxt_update f1 (mux_update f3 s) = mux_update f3 (nxt_update f1 s)"
  "nxt_update f1 (events_update f4 s) = events_update f4 (nxt_update f1 s)"
  "nxt_update f1 (world_update f5 s) = world_update f5 (nxt_update f1 s)"
  "cache_update f2 (mux_update f3 s) = mux_update f3 (cache_update f2 s)"
  "cache_update f2 (events_update f4 s) = events_update f4 (cache_update f2 s)"
  "cache_update f2 (world_update f5 s) = world_update f5 (cache_update f2 s)"
  "mux_update f3 (events_update f4 s) = events_update f4 (mux_update f3 s)"
  "mux_update f3 (world_update f5 s) = world_update f5 (mux_update f3 s)"
  "events_update f4 (world_update f5 s) = world_update f5 (events_update f4 s)"
  by (cases s; simp)+

section \<open>The duration of a time to live\<close>

text \<open>
  The product of a 32-bit time to live and \<open>10\<^sup>9\<close> stays below \<open>2\<^sup>6\<^sup>3\<close>, so the
  64-bit multiplication does not wrap and the duration is the time to live in
  seconds.
\<close>

lemma uint_ttlDuration: "uint (ttlDuration ttl) = uint ttl * 1000000000"
proof -
  have up: "uint (ucast ttl :: 64 word) = uint ttl"
    by (rule uint_up_ucast) (simp add: is_up)
  have "uint ttl < 2 ^ 32"
    using uint_lt2p [of ttl] by simp
  then have bound: "uint (ucast ttl :: 64 word) * uint (1000000000 :: 64 word) < 2 ^ LENGTH(64)"
    using up by simp
  have "uint ((ucast ttl :: 64 word) * 1000000000) = uint (ucast ttl :: 64 word) * uint (1000000000 :: 64 word)"
    using bound by (simp only: uint_mult_lem)
  then show ?thesis
    by (simp add: ttlDuration_def Second_def up)
qed

lemma sint_ttlDuration: "sint (ttlDuration ttl) = int (unat ttl) * 1000000000"
proof -
  have lt: "uint ttl < 2 ^ 32"
    using uint_lt2p [of ttl] by simp
  have ge: "- (2 ^ 63) \<le> uint ttl * 1000000000"
  proof -
    have "- (2 ^ 63) \<le> (0::int)" by simp
    also have "0 \<le> uint ttl * 1000000000" by simp
    finally show ?thesis .
  qed
  have lt': "uint ttl * 1000000000 < 2 ^ 63"
    using lt by simp
  have "sint (ttlDuration ttl) = signed_take_bit 63 (uint (ttlDuration ttl))"
    by (simp add: sint_uint)
  also have "\<dots> = uint ttl * 1000000000"
    unfolding uint_ttlDuration
    by (rule signed_take_bit_int_eq_self) (rule ge, rule lt')
  finally show ?thesis by simp
qed

section \<open>Parsing\<close>

lemma HasPrefix_iff: "HasPrefix s p \<longleftrightarrow> (\<exists>r. s = p @ r)"
  unfolding HasPrefix_def
  by (metis append_eq_conv_conj append_take_drop_id length_append le_add1)

lemma parse_udp: "parseListenAddr (''udp:'' @ r) = (''udp'', r, None)"
  by (simp add: parseListenAddr_def HasPrefix_def)

lemma parse_tcp: "parseListenAddr (''tcp:'' @ r) = (''tcp'', r, None)"
  by (simp add: parseListenAddr_def HasPrefix_def)

lemma parse_other:
  "\<not> HasPrefix s ''udp:'' \<Longrightarrow> \<not> HasPrefix s ''tcp:'' \<Longrightarrow> parseListenAddr s = (''udp'', s, None)"
  by (simp add: parseListenAddr_def)

lemma parse_cases:
  "\<exists>proto a. parseListenAddr s = (proto, a, None) \<and> (proto = ''udp'' \<or> proto = ''tcp'')"
  by (simp add: parseListenAddr_def)

lemma NewDNSServer_eq:
  "NewDNSServer server s =
     (Inr \<lparr>clientNet = fst (parseListenAddr server), addr = fst (snd (parseListenAddr server))\<rparr>, s)"
  using parse_cases [of server]
  by (auto simp: NewDNSServer_def parseDNSServerAddr_def)

lemma newServers_eq:
  "newServers srvs s =
     (map (\<lambda>server. \<lparr>clientNet = fst (parseListenAddr server),
                       addr = fst (snd (parseListenAddr server))\<rparr>) srvs, s)"
  by (induction srvs arbitrary: s) (simp_all add: NewDNSServer_eq)

section \<open>The loop of start\<close>

lemma startLoop_Cons:
  "startLoop env this (listenAddr # rest) s =
     (if fst (startStep env this listenAddr s) = Returned None
      then startLoop env this rest (snd (startStep env this listenAddr s))
      else startStep env this listenAddr s)"
proof -
  obtain proto a where p: "parseListenAddr listenAddr = (proto, a, None)" "proto = ''udp'' \<or> proto = ''tcp''"
    using parse_cases by blast
  from p(2) show ?thesis
  proof
    assume "proto = ''udp''"
    with p(1) show ?thesis
      by (auto simp: startStep_def startUDPServer_def listenAndServe_def zlog_def HandleFunc_def
          startLoop.simps(2)
          Let_def split: prod.splits lns.splits option.splits)
  next
    assume "proto = ''tcp''"
    with p(1) show ?thesis
      by (auto simp: startStep_def startTCPServer_def listenAndServe_def zlog_def HandleFunc_def
          startLoop.simps(2)
          Let_def split: prod.splits lns.splits option.splits)
  qed
qed

lemma startLoop_events:
  "\<exists>evs. events (snd (startLoop env this las s)) = events s @ evs \<and> list_all startEvent evs"
proof (induction las arbitrary: s)
  case Nil
  then show ?case by simp
next
  case (Cons a las)
  let ?r = "startStep env this a s"
  obtain new where new: "events (snd ?r) = events s @ new" "list_all startEvent new"
    by (simp add: startStep_def startEvent_def Let_def)
  show ?case
  proof (cases "fst ?r = Returned None")
    case True
    obtain evs where "events (snd (startLoop env this las (snd ?r))) = events (snd ?r) @ evs"
      "list_all startEvent evs"
      using Cons.IH by blast
    with new True show ?thesis
      by (simp add: startLoop_Cons)
  next
    case False
    with new show ?thesis
      by (simp add: startLoop_Cons)
  qed
qed

lemma startLoop_mux:
  "mux (snd (startLoop env this las s)) =
     (if las = [] then mux s else (mux s)(''.'' \<mapsto> ProcessDNSMsg this))"
proof (induction las arbitrary: s)
  case Nil
  then show ?case by simp
next
  case (Cons a las)
  have "mux (snd (startStep env this a s)) = (mux s)(''.'' \<mapsto> ProcessDNSMsg this)"
    by (simp add: startStep_def Let_def)
  then show ?case
    by (auto simp: startLoop_Cons Cons.IH fun_eq_iff)
qed

lemma startLoop_error:
  "fst (startLoop env this las s) = Returned (Some e) \<Longrightarrow>
     \<exists>srv w. fst (ListenAndServe env srv w) = Returned (Some e)"
proof (induction las arbitrary: s)
  case Nil
  then show ?case by simp
next
  case (Cons a las)
  show ?case
  proof (cases "fst (startStep env this a s) = Returned None")
    case True
    with Cons show ?thesis by (simp add: startLoop_Cons)
  next
    case False
    with Cons.prems have "fst (startStep env this a s) = Returned (Some e)"
      by (simp add: startLoop_Cons)
    then show ?thesis
      by (auto simp: startStep_def Let_def)
  qed
qed

section \<open>Store and lookup\<close>

lemma NewDNSCacheItem_Cons:
  "Answer (h r) = rr # rrs \<Longrightarrow>
   NewDNSCacheItem now h r =
     Inr \<lparr>timeOut = now + int (unat (Ttl (Header rr))) * 1000000000, resp = r\<rparr>"
  by (simp add: NewDNSCacheItem_def sint_ttlDuration)

lemma cacheResponse_noop:
  "Answer (heap s r) = [] \<or> isl (getKey req) \<Longrightarrow> cacheResponse now req r s = Inr s"
  by (auto simp: cacheResponse_def split: sum.splits)

lemma cacheResponse_store:
  "Answer (heap s r) = rr # rrs \<Longrightarrow> getKey req = Inr key \<Longrightarrow>
   cacheResponse now req r s =
     Inr (s\<lparr>cache := (cache s)(key \<mapsto>
               \<lparr>timeOut = now + int (unat (Ttl (Header rr))) * 1000000000, resp = r\<rparr>),
            events := events s @
               [Logged DebugLevel ''cache response''
                  [MsgField ''req'' req, MsgField ''resp'' (heap s r)]]\<rparr>)"
  by (simp add: cacheResponse_def zlog_def NewDNSCacheItem_Cons)

lemma cacheResponse_total: "\<exists>s'. cacheResponse now req r s = Inr s'"
proof (cases "Answer (heap s r)")
  case Nil
  then show ?thesis by (simp add: cacheResponse_noop)
next
  case (Cons rr rrs)
  then show ?thesis
    by (cases "getKey req") (simp_all add: cacheResponse_noop cacheResponse_store)
qed

lemma findResponse_hit:
  "getKey req = Inr key \<Longrightarrow> cache s key = Some item \<Longrightarrow> \<not> isTimeout now item \<Longrightarrow>
   findResponse now req s =
     (Inr (resp item),
      s\<lparr>events := events s @
           [Logged DebugLevel ''find response from cache''
              [MsgField ''req'' req, MsgField ''resp'' (heap s (resp item))]]\<rparr>)"
  by (simp add: findResponse_def zlog_def)

lemma findResponse_expired:
  "getKey req = Inr key \<Longrightarrow> cache s key = Some item \<Longrightarrow> isTimeout now item \<Longrightarrow>
   findResponse now req s = (Inl (NoResponse req), s\<lparr>cache := (cache s)(key := None)\<rparr>)"
  by (simp add: findResponse_def)

lemma findResponse_absent:
  "getKey req = Inr key \<Longrightarrow> cache s key = None \<Longrightarrow>
   findResponse now req s = (Inl (NoResponse req), s)"
  by (simp add: findResponse_def)

lemma findResponse_noKey:
  "isl (getKey req) \<Longrightarrow> findResponse now req s = (Inl (NoResponse req), s)"
  by (auto simp: findResponse_def split: sum.splits)

lemma findResponse_miss_iff:
  "isl (fst (findResponse now req s)) \<longleftrightarrow>
     (case getKey req of
        Inr key \<Rightarrow> (case cache s key of Some item \<Rightarrow> isTimeout now item | None \<Rightarrow> True)
      | Inl err \<Rightarrow> True)"
  by (simp add: findResponse_def split: sum.splits option.splits)

lemma findResponse_miss:
  "isl (fst (findResponse now req s)) \<Longrightarrow>
   findResponse now req s =
     (Inl (NoResponse req),
      s\<lparr>cache := (case getKey req of Inr key \<Rightarrow> (cache s)(key := None) | Inl err \<Rightarrow> cache s)\<rparr>)"
  by (auto simp: findResponse_def fun_upd_idem split: sum.splits option.splits)

section \<open>The loop over the upstreams\<close>

lemma Exchange_fail:
  "ClientExchange env (clientNet u) (addr u) req (world s) = (Inl err, w) \<Longrightarrow>
   Exchange env u req s = (Inl err, s\<lparr>events := events s @ [Exchanged u req], world := w\<rparr>)"
  by (simp add: Exchange_def)

lemma Exchange_ok:
  "ClientExchange env (clientNet u) (addr u) req (world s) = (Inr m, w) \<Longrightarrow>
   Exchange env u req s =
     (Inr (nxt s),
      s\<lparr>heap := (heap s)(nxt s := m), nxt := Suc (nxt s),
        events := events s @ [Exchanged u req], world := w\<rparr>)"
  by (simp add: Exchange_def)

lemma forLoop_allFail:
  "allFail env us req (world s) = Some w \<Longrightarrow>
   forLoop env (us @ rest) req s =
     forLoop env rest req (s\<lparr>events := events s @ map (\<lambda>u. Exchanged u req) us, world := w\<rparr>)"
proof (induction us arbitrary: s)
  case Nil
  then show ?case by auto
next
  case (Cons u us)
  from Cons.prems obtain err w' where
    ex: "ClientExchange env (clientNet u) (addr u) req (world s) = (Inl err, w')" and
    rest: "allFail env us req w' = Some w"
    by (auto split: prod.splits sum.splits)
  let ?s1 = "s\<lparr>events := events s @ [Exchanged u req], world := w'\<rparr>"
  have "forLoop env ((u # us) @ rest) req s = forLoop env (us @ rest) req ?s1"
    by (simp add: forLoop.simps(2) Exchange_fail [OF ex])
  also have "\<dots> = forLoop env rest req
      (?s1\<lparr>events := events ?s1 @ map (\<lambda>u. Exchanged u req) us, world := w\<rparr>)"
    by (rule Cons.IH) (simp add: rest)
  finally show ?case by simp
qed

lemma forLoop_success:
  assumes "ClientExchange env (clientNet u) (addr u) req (world s) = (Inr m, w)"
  shows "forLoop env (u # post) req s =
     Inr (Return (s\<lparr>heap := (heap s)(nxt s := m), nxt := Suc (nxt s), world := w,
        cache := (case getKey req of
                    Inr key \<Rightarrow>
                      (case Answer m of
                         rr # rrs \<Rightarrow> (cache s)(key \<mapsto>
                           \<lparr>timeOut = Now env w + int (unat (Ttl (Header rr))) * 1000000000,
                            resp = nxt s\<rparr>)
                       | [] \<Rightarrow> cache s)
                  | Inl err \<Rightarrow> cache s),
        events := events s @ [Exchanged u req] @
          (if isl (getKey req) \<or> Answer m = [] then []
           else [Logged DebugLevel ''cache response'' [MsgField ''req'' req, MsgField ''resp'' m]]) @
          [Logged InfoLevel ''succeed to get response'' [MsgField ''response'' m], Wrote m]\<rparr>))"
proof (cases "getKey req")
  case (Inl err)
  then show ?thesis
    by (simp add: forLoop.simps(2) Exchange_ok [OF assms] cacheResponse_noop zlog_def WriteMsg_def)
next
  case (Inr key)
  show ?thesis
  proof (cases "Answer m")
    case Nil
    then show ?thesis
      by (simp add: forLoop.simps(2) Inr Exchange_ok [OF assms] cacheResponse_noop zlog_def WriteMsg_def)
  next
    case (Cons rr rrs)
    then show ?thesis
      by (simp add: forLoop.simps(2) Inr Exchange_ok [OF assms] cacheResponse_store zlog_def WriteMsg_def)
  qed
qed

lemma processDNSMsg_miss:
  assumes "isl (fst (findResponse (Now env (world s)) req s))"
  shows "processDNSMsg env cs req s =
     (case forLoop env (servers cs) req
             (s\<lparr>cache := (case getKey req of Inr key \<Rightarrow> (cache s)(key := None) | Inl err \<Rightarrow> cache s),
                events := events s @ [Logged DebugLevel ''process request'' [MsgField ''request'' req]]\<rparr>) of
        Inl p \<Rightarrow> Inl p
      | Inr (Return s2) \<Rightarrow> Inr s2
      | Inr (Fallthrough s2) \<Rightarrow>
          Inr (zlog ErrorLevel ''fail to process request'' [MsgField ''request'' req] s2))"
proof (cases "getKey req")
  case (Inl err)
  then show ?thesis
    by (simp add: processDNSMsg_def Let_def zlog_def findResponse_def)
next
  case (Inr key)
  show ?thesis
  proof (cases "cache s key")
    case None
    with Inr show ?thesis
      by (simp add: processDNSMsg_def Let_def zlog_def findResponse_def fun_upd_idem)
  next
    case (Some item)
    with Inr assms have "isTimeout (Now env (world s)) item"
      by (simp add: findResponse_miss_iff)
    with Inr Some show ?thesis
      by (simp add: processDNSMsg_def Let_def zlog_def findResponse_def)
  qed
qed

lemma forLoop_noKey:
  "isl (getKey req) \<Longrightarrow>
   \<exists>c. forLoop env us req s = Inr c \<and>
       cache (case c of Return x \<Rightarrow> x | Fallthrough x \<Rightarrow> x) = cache s"
proof (induction us arbitrary: s)
  case Nil
  then show ?case by simp
next
  case (Cons u us)
  show ?case
  proof (cases "ClientExchange env (clientNet u) (addr u) req (world s)")
    case (Pair res w)
    show ?thesis
    proof (cases res)
      case (Inl err)
      with Pair show ?thesis
        using Cons.IH [OF Cons.prems, of "s\<lparr>events := events s @ [Exchanged u req], world := w\<rparr>"]
        by (simp add: forLoop.simps(2) Exchange_fail)
    next
      case (Inr m)
      with Pair Cons.prems show ?thesis
        by (auto simp: forLoop_success simp del: forLoop.simps split: sum.splits)
    qed
  qed
qed

lemma processDNSMsg_noKey:
  assumes "isl (getKey req)"
  shows "\<exists>s'. processDNSMsg env cs req s = Inr s' \<and> cache s' = cache s"
proof -
  have miss: "isl (fst (findResponse (Now env (world s)) req s))"
    using assms by (simp add: findResponse_noKey)
  let ?s1 = "s\<lparr>cache := (case getKey req of Inr key \<Rightarrow> (cache s)(key := None) | Inl err \<Rightarrow> cache s),
                events := events s @ [Logged DebugLevel ''process request'' [MsgField ''request'' req]]\<rparr>"
  obtain c where c: "forLoop env (servers cs) req ?s1 = Inr c"
    "cache (case c of Return x \<Rightarrow> x | Fallthrough x \<Rightarrow> x) = cache ?s1"
    using forLoop_noKey [OF assms] by blast
  have "cache ?s1 = cache s"
    using assms by (auto split: sum.splits)
  with c show ?thesis
    by (cases c) (simp_all add: processDNSMsg_miss [OF miss] zlog_def)
qed

lemma processDNSMsg_allFail:
  assumes miss: "isl (fst (findResponse (Now env (world s)) req s))"
    and fails: "allFail env (servers cs) req (world s) = Some w"
  shows "processDNSMsg env cs req s =
     Inr (s\<lparr>cache := (case getKey req of Inr key \<Rightarrow> (cache s)(key := None) | Inl err \<Rightarrow> cache s),
            events := events s @
              [Logged DebugLevel ''process request'' [MsgField ''request'' req]] @
              map (\<lambda>d. Exchanged d req) (servers cs) @
              [Logged ErrorLevel ''fail to process request'' [MsgField ''request'' req]],
            world := w\<rparr>)"
proof -
  let ?s1 = "s\<lparr>cache := (case getKey req of Inr key \<Rightarrow> (cache s)(key := None) | Inl err \<Rightarrow> cache s),
                events := events s @ [Logged DebugLevel ''process request'' [MsgField ''request'' req]]\<rparr>"
  have "forLoop env (servers cs @ []) req ?s1 =
      forLoop env [] req (?s1\<lparr>events := events ?s1 @ map (\<lambda>u. Exchanged u req) (servers cs), world := w\<rparr>)"
    by (rule forLoop_allFail) (simp add: fails)
  then show ?thesis
    by (simp add: processDNSMsg_miss [OF miss] zlog_def)
qed

section \<open>Cached pointers stay below the next address\<close>

lemma wellFormed_events [simp]: "wellFormed (s\<lparr>events := es\<rparr>) = wellFormed s"
  by (simp add: wellFormed_def)

lemma wellFormed_world [simp]: "wellFormed (s\<lparr>world := w\<rparr>) = wellFormed s"
  by (simp add: wellFormed_def)

lemma wellFormed_delete: "wellFormed s \<Longrightarrow> wellFormed (s\<lparr>cache := (cache s)(key := None)\<rparr>)"
  by (simp add: wellFormed_def)

lemma wellFormed_findResponse:
  "wellFormed s \<Longrightarrow> wellFormed (snd (findResponse now req s))"
  by (auto simp: findResponse_def zlog_def wellFormed_delete split: sum.splits option.splits)

lemma wellFormed_forLoop:
  "wellFormed s \<Longrightarrow> forLoop env us req s = Inr c \<Longrightarrow>
   wellFormed (case c of Return x \<Rightarrow> x | Fallthrough x \<Rightarrow> x)"
proof (induction us arbitrary: s)
  case Nil
  then show ?case by auto
next
  case (Cons u us)
  obtain res w where ex: "ClientExchange env (clientNet u) (addr u) req (world s) = (res, w)"
    by (cases "ClientExchange env (clientNet u) (addr u) req (world s)")
  show ?case
  proof (cases res)
    case (Inl err)
    with ex Cons.prems have "forLoop env us req (s\<lparr>events := events s @ [Exchanged u req], world := w\<rparr>) = Inr c"
      by (simp add: forLoop.simps(2) Exchange_fail)
    moreover have "wellFormed (s\<lparr>events := events s @ [Exchanged u req], world := w\<rparr>)"
      using Cons.prems(1) by simp
    ultimately show ?thesis
      by (rule Cons.IH [rotated])
  next
    case (Inr m)
    with ex have ok: "ClientExchange env (clientNet u) (addr u) req (world s) = (Inr m, w)"
      by simp
    from Cons.prems(2) have c: "c = Return (s\<lparr>heap := (heap s)(nxt s := m), nxt := Suc (nxt s), world := w,
        cache := (case getKey req of
                    Inr key \<Rightarrow>
                      (case Answer m of
                         rr # rrs \<Rightarrow> (cache s)(key \<mapsto>
                           \<lparr>timeOut = Now env w + int (unat (Ttl (Header rr))) * 1000000000,
                            resp = nxt s\<rparr>)
                       | [] \<Rightarrow> cache s)
                  | Inl err \<Rightarrow> cache s),
        events := events s @ [Exchanged u req] @
          (if isl (getKey req) \<or> Answer m = [] then []
           else [Logged DebugLevel ''cache response'' [MsgField ''req'' req, MsgField ''resp'' m]]) @
          [Logged InfoLevel ''succeed to get response'' [MsgField ''response'' m], Wrote m]\<rparr>)"
      unfolding forLoop_success [OF ok] by simp
    show ?thesis
      unfolding c using Cons.prems(1)
      by (auto simp: wellFormed_def less_Suc_eq split: sum.splits list.splits)
  qed
qed

lemma wellFormed_processDNSMsg:
  assumes "wellFormed s" and "processDNSMsg env cs req s = Inr s'"
  shows "wellFormed s'"
proof (cases "isl (fst (findResponse (Now env (world s)) req s))")
  case True
  let ?s1 = "s\<lparr>cache := (case getKey req of Inr key \<Rightarrow> (cache s)(key := None) | Inl err \<Rightarrow> cache s),
                events := events s @ [Logged DebugLevel ''process request'' [MsgField ''request'' req]]\<rparr>"
  have wf1: "wellFormed ?s1"
    using assms(1) by (auto simp: wellFormed_def split: sum.splits)
  show ?thesis
  proof (cases "forLoop env (servers cs) req ?s1")
    case (Inl p)
    with assms(2) show ?thesis
      by (simp add: processDNSMsg_miss [OF True])
  next
    case (Inr c)
    from wellFormed_forLoop [OF wf1 Inr] Inr assms(2) show ?thesis
      by (cases c) (auto simp: processDNSMsg_miss [OF True] zlog_def)
  qed
next
  case False
  then obtain key item where h: "getKey req = Inr key" "cache s key = Some item"
    "\<not> isTimeout (Now env (world s)) item"
    by (auto simp: findResponse_miss_iff split: sum.splits option.splits)
  have "findResponse (Now env (world s)) req
          (zlog DebugLevel ''process request'' [MsgField ''request'' req] s) =
     (Inr (resp item),
      (zlog DebugLevel ''process request'' [MsgField ''request'' req] s)
        \<lparr>events := events (zlog DebugLevel ''process request'' [MsgField ''request'' req] s) @
           [Logged DebugLevel ''find response from cache''
              [MsgField ''req'' req,
               MsgField ''resp'' (heap (zlog DebugLevel ''process request'' [MsgField ''request'' req] s) (resp item))]]\<rparr>)"
    by (rule findResponse_hit [OF h(1)]) (simp_all add: h zlog_def)
  with assms show ?thesis
    by (auto simp: processDNSMsg_def Let_def zlog_def WriteMsg_def wellFormed_def)
qed

lemma fresh_reply_keeps_cached_objects:
  assumes "wellFormed s" and "cache s key = Some item"
  shows "((heap s)(nxt s := m)) (resp item) = heap s (resp item)"
proof -
  have "resp item < nxt s"
    using assms by (simp add: wellFormed_def)
  then show ?thesis by simp
qed

section \<open>The loop of start, as a whole\<close>

lemma start_mux:
  "listenAddrs cs \<noteq> [] \<Longrightarrow>
   mux (snd (start env this cs s)) = (mux s)(''.'' \<mapsto> ProcessDNSMsg this)"
  by (simp add: start_def startLoop_mux)

lemma start_listeners:
  "\<exists>evs. events (snd (start env this cs s)) = events s @ evs \<and> list_all startEvent evs"
  unfolding start_def by (rule startLoop_events)

lemma startEvent_Listened: "startEvent (Listened srv) \<longleftrightarrow> Handler srv = None"
  by (simp add: startEvent_def)

lemma startEvent_not_error: "startEvent e \<Longrightarrow> \<not> errorLogged e"
  by (cases e) (simp_all add: startEvent_def errorLogged_def)

section \<open>The installation, evaluated\<close>

lemma getKey_exQuery: "getKey exQuery = Inr ''example.com.-1''"
  by (simp add: getKey_def exQuery_def exQuestion_def TypeA_def TypeAAAA_def fmtD_Suc_0)

lemma getKey_exQueryMX: "getKey exQueryMX = Inl (NoKey exQueryMX)"
  by (simp add: getKey_def exQueryMX_def TypeA_def TypeAAAA_def)

lemma getKey_exQueryTwo: "getKey exQueryTwo = Inl (NoKey exQueryTwo)"
  by (simp add: getKey_def exQueryTwo_def)

lemma evalExchange:
  "ClientExchange exEnv n a req w =
     (if a = ''10.0.0.3:53'' then Inr (exReply\<lparr>Id := Id req\<rparr>)
      else Inl (NetError ''i/o timeout''), Suc w)"
  "Now exEnv w = int w"
  by (simp_all add: exEnv_def)

lemma evalState:
  "heap exState 0 = exReply" "nxt exState = 2" "cache exState = Map.empty"
  "events exState = []" "world exState = 0" "mux exState = Map.empty"
  by (simp_all add: exState_def)

lemma start_exOther:
  "start exEnv 2 exOther s =
     (Returned (Some (NetError ''bind: address already in use'')),
      s\<lparr>mux := (mux s)(''.'' \<mapsto> ProcessDNSMsg 2),
        events := events s @
          [Logged InfoLevel ''start tcp DNS server'' [StrField ''address'' ''0.0.0.0:5353''],
           Listened \<lparr>Addr = ''0.0.0.0:5353'', Net = ''tcp'', Handler = None\<rparr>]\<rparr>)"
  by (simp add: start_def exOther_def startLoop_Cons startStep_def parse_tcp [of "''0.0.0.0:5353''", simplified]
      exEnv_def Let_def)

section \<open>The claims\<close>

text \<open>
  Claim C1, amended. An entry stored at instant \<open>T\<close> from a reply whose first answer
  record has a time to live of \<open>S\<close> seconds times out at \<open>T + S\<close>. A lookup of the same
  key at any instant from \<open>T\<close> up to and including \<open>T + S\<close> returns the stored reply
  and leaves the entry in the map; a lookup at any instant strictly after \<open>T + S\<close>
  fails and removes the entry. (\<^verbatim>\<open>isTimeout\<close> asks whether the clock is after the
  time-out, so the entry is still served at the instant \<open>T + S\<close> itself.)
\<close>

theorem ttl_law:
  assumes "Answer (heap s r) = rr # rrs" and "getKey req = Inr key" and "getKey req' = Inr key"
  shows "\<exists>s'. cacheResponse T req r s = Inr s' \<and>
     cache s' key = Some \<lparr>timeOut = T + int (unat (Ttl (Header rr))) * 1000000000, resp = r\<rparr> \<and>
     (\<forall>t. T \<le> t \<and> t \<le> T + int (unat (Ttl (Header rr))) * 1000000000 \<longrightarrow>
        fst (findResponse t req' s') = Inr r \<and> cache (snd (findResponse t req' s')) = cache s') \<and>
     (\<forall>t. T + int (unat (Ttl (Header rr))) * 1000000000 < t \<longrightarrow>
        fst (findResponse t req' s') = Inl (NoResponse req') \<and>
        cache (snd (findResponse t req' s')) = (cache s')(key := None))"
  using assms
  by (auto simp: cacheResponse_store findResponse_def isTimeout_def zlog_def)

theorem ttl_law_witness:
  "Answer (heap exState 0) = [exRR] \<and> getKey exQuery = Inr ''example.com.-1'' \<and>
   (\<exists>s'. cacheResponse 0 exQuery 0 exState = Inr s' \<and>
      cache s' ''example.com.-1'' = Some \<lparr>timeOut = 60000000000, resp = 0\<rparr> \<and>
      fst (findResponse 30000000000 exQuery s') = Inr 0 \<and>
      cache (snd (findResponse 30000000000 exQuery s')) = cache s' \<and>
      fst (findResponse 61000000000 exQuery s') = Inl (NoResponse exQuery) \<and>
      cache (snd (findResponse 61000000000 exQuery s')) = (cache s')(''example.com.-1'' := None))"
proof -
  have b: "Answer (heap exState 0) = exRR # []"
    by (simp add: exState_def exReply_def)
  have t: "int (unat (Ttl (Header exRR))) = 60"
    by (simp add: exRR_def)
  obtain s' where s': "cacheResponse 0 exQuery 0 exState = Inr s'"
    "cache s' ''example.com.-1'' = Some \<lparr>timeOut = 0 + 60 * 1000000000, resp = 0\<rparr>"
    "\<forall>t. 0 \<le> t \<and> t \<le> 0 + 60 * 1000000000 \<longrightarrow>
        fst (findResponse t exQuery s') = Inr 0 \<and> cache (snd (findResponse t exQuery s')) = cache s'"
    "\<forall>t. 0 + 60 * 1000000000 < t \<longrightarrow>
        fst (findResponse t exQuery s') = Inl (NoResponse exQuery) \<and>
        cache (snd (findResponse t exQuery s')) = (cache s')(''example.com.-1'' := None)"
    using ttl_law [OF b getKey_exQuery getKey_exQuery, of 0] unfolding t by blast
  have "fst (findResponse 30000000000 exQuery s') = Inr 0 \<and>
      cache (snd (findResponse 30000000000 exQuery s')) = cache s'"
    using s'(3) by simp
  moreover have "fst (findResponse 61000000000 exQuery s') = Inl (NoResponse exQuery) \<and>
      cache (snd (findResponse 61000000000 exQuery s')) = (cache s')(''example.com.-1'' := None)"
    using s'(4) by simp
  ultimately show ?thesis
    using b getKey_exQuery s'(1,2) by simp
qed

text \<open>
  The law with the half-open interval fails at its right end: the entry stored at
  instant 0 with 60 seconds to live is returned by the lookup at second 60 exactly,
  and stays in the map.
\<close>

theorem ttl_law_counterexample:
  "cacheResponse 0 exQuery 0 exState =
     Inr (exState\<lparr>cache := [''example.com.-1'' \<mapsto> \<lparr>timeOut = 0 + 60 * 1000000000, resp = 0\<rparr>],
            events := [Logged DebugLevel ''cache response''
                         [MsgField ''req'' exQuery, MsgField ''resp'' exReply]]\<rparr>) \<and>
   fst (findResponse (0 + 60 * 1000000000) exQuery
          (exState\<lparr>cache := [''example.com.-1'' \<mapsto> \<lparr>timeOut = 0 + 60 * 1000000000, resp = 0\<rparr>],
            events := [Logged DebugLevel ''cache response''
                         [MsgField ''req'' exQuery, MsgField ''resp'' exReply]]\<rparr>)) = Inr 0 \<and>
   cache (snd (findResponse (0 + 60 * 1000000000) exQuery
          (exState\<lparr>cache := [''example.com.-1'' \<mapsto> \<lparr>timeOut = 0 + 60 * 1000000000, resp = 0\<rparr>],
            events := [Logged DebugLevel ''cache response''
                         [MsgField ''req'' exQuery, MsgField ''resp'' exReply]]\<rparr>))) ''example.com.-1''
     = Some \<lparr>timeOut = 0 + 60 * 1000000000, resp = 0\<rparr>"
proof -
  have b: "Answer (heap exState 0) = exRR # []"
    by (simp add: exState_def exReply_def)
  have t: "int (unat (Ttl (Header exRR))) = 60"
    by (simp add: exRR_def)
  show ?thesis
    by (simp add: cacheResponse_store [OF b getKey_exQuery] exRR_def evalState
        findResponse_def getKey_exQuery isTimeout_def zlog_def)
qed

text \<open>
  Claim C2. A query with exactly one question of type A or AAAA has a key, made of
  the question's name and type only, so two such queries with the same name and
  type have the same key. Any other query (no question, several questions, one
  question of another type) has no key; a lookup for it fails and leaves the state
  alone, a store for it does nothing, and the handler leaves the cache as it was.
\<close>

theorem cache_key_derivation:
  "(Question req = [q] \<and> (Qtype q = TypeA \<or> Qtype q = TypeAAAA) \<longrightarrow>
      getKey req = Inr (Question.Name q @ ''-'' @ fmtD (unat (Qtype q)))) \<and>
   (Question req = [q] \<and> (Qtype q = TypeA \<or> Qtype q = TypeAAAA) \<and>
    Question req' = [q'] \<and> Question.Name q' = Question.Name q \<and> Qtype q' = Qtype q \<longrightarrow>
      getKey req' = getKey req) \<and>
   ((\<nexists>q. Question req = [q] \<and> (Qtype q = TypeA \<or> Qtype q = TypeAAAA)) \<longrightarrow>
      getKey req = Inl (NoKey req) \<and>
      findResponse now req s = (Inl (NoResponse req), s) \<and>
      cacheResponse now req r s = Inr s \<and>
      (\<exists>s'. processDNSMsg env cs req s = Inr s' \<and> cache s' = cache s))"
proof (intro conjI impI)
  assume "Question req = [q] \<and> (Qtype q = TypeA \<or> Qtype q = TypeAAAA)"
  then show "getKey req = Inr (Question.Name q @ ''-'' @ fmtD (unat (Qtype q)))"
    by (auto simp: getKey_def)
next
  assume "Question req = [q] \<and> (Qtype q = TypeA \<or> Qtype q = TypeAAAA) \<and>
    Question req' = [q'] \<and> Question.Name q' = Question.Name q \<and> Qtype q' = Qtype q"
  then show "getKey req' = getKey req"
    by (auto simp: getKey_def)
next
  assume no: "\<nexists>q. Question req = [q] \<and> (Qtype q = TypeA \<or> Qtype q = TypeAAAA)"
  then show k: "getKey req = Inl (NoKey req)"
    by (auto simp: getKey_def split: list.splits)
  then have l: "isl (getKey req)" by simp
  show "findResponse now req s = (Inl (NoResponse req), s)"
    by (rule findResponse_noKey [OF l])
  show "cacheResponse now req r s = Inr s"
    by (rule cacheResponse_noop) (simp add: l)
  show "\<exists>s'. processDNSMsg env cs req s = Inr s' \<and> cache s' = cache s"
    by (rule processDNSMsg_noKey [OF l])
qed

theorem cache_key_derivation_witness:
  "Question exQuery = [exQuestion] \<and> Qtype exQuestion = TypeA \<and>
   getKey exQuery = Inr ''example.com.-1'' \<and>
   Question (exReply\<lparr>Id := 9\<rparr>) = [exQuestion] \<and>
   getKey (exReply\<lparr>Id := 9\<rparr>) = getKey exQuery \<and>
   (\<nexists>q. Question exQueryMX = [q] \<and> (Qtype q = TypeA \<or> Qtype q = TypeAAAA)) \<and>
   getKey exQueryMX = Inl (NoKey exQueryMX) \<and>
   findResponse 0 exQueryMX exCached = (Inl (NoResponse exQueryMX), exCached) \<and>
   cacheResponse 0 exQueryMX 0 exState = Inr exState \<and>
   (\<exists>s'. processDNSMsg exEnv exCS exQueryMX exState = Inr s' \<and> cache s' = cache exState) \<and>
   (\<nexists>q. Question exQueryTwo = [q] \<and> (Qtype q = TypeA \<or> Qtype q = TypeAAAA)) \<and>
   getKey exQueryTwo = Inl (NoKey exQueryTwo)"
proof -
  have q: "Question exQuery = [exQuestion]" "Qtype exQuestion = TypeA"
    "Question (exReply\<lparr>Id := 9\<rparr>) = [exQuestion]"
    "Question.Name exQuestion @ ''-'' @ fmtD (unat (Qtype exQuestion)) = ''example.com.-1''"
    by (simp_all add: exQuery_def exQuestion_def exReply_def TypeA_def fmtD_Suc_0)
  have mx: "\<nexists>q. Question exQueryMX = [q] \<and> (Qtype q = TypeA \<or> Qtype q = TypeAAAA)"
    by (simp add: exQueryMX_def TypeA_def TypeAAAA_def)
  have two: "\<nexists>q. Question exQueryTwo = [q] \<and> (Qtype q = TypeA \<or> Qtype q = TypeAAAA)"
    by (simp add: exQueryTwo_def)
  show ?thesis
    using q mx two
      cache_key_derivation [of exQuery exQuestion "exReply\<lparr>Id := 9\<rparr>" exQuestion 0 exState 0 exEnv exCS]
      cache_key_derivation [of exQueryMX exQuestion exQueryMX exQuestion 0 exCached 0 exEnv exCS]
      cache_key_derivation [of exQueryMX exQuestion exQueryMX exQuestion 0 exState 0 exEnv exCS]
      cache_key_derivation [of exQueryTwo exQuestion exQueryTwo exQuestion 0 exState 0 exEnv exCS]
    by simp
qed

text \<open>
  Claim C3. On a cache miss the handler tries the upstreams in the order of the
  list and stops at the first whose exchange returns no error: when the upstreams
  \<open>pre\<close> all fail and the next one, \<open>u\<close>, answers \<open>m\<close>, the exchanges made are those
  with \<open>pre\<close> and then \<open>u\<close> and no other, the reply written is \<open>m\<close>, and the cache is
  the one the lookup left with the entry of \<open>m\<close> under the key of the query (when
  the query has a key and \<open>m\<close> an answer record). The upstreams after \<open>u\<close> play no
  part. The witness is the list of three upstreams of which the third answers.
\<close>

theorem fallback_ordering:
  assumes miss: "isl (fst (findResponse (Now env (world s)) req s))"
    and fails: "allFail env pre req (world s) = Some w1"
    and ok: "ClientExchange env (clientNet u) (addr u) req w1 = (Inr m, w2)"
    and cs: "servers cs = pre @ u # post"
  shows "\<exists>s'. processDNSMsg env cs req s = Inr s' \<and>
     heap s' = (heap s)(nxt s := m) \<and>
     world s' = w2 \<and>
     cache s' =
       (case getKey req of
          Inr key \<Rightarrow>
            (case Answer m of
               rr # rrs \<Rightarrow> (cache s)(key \<mapsto>
                 \<lparr>timeOut = Now env w2 + int (unat (Ttl (Header rr))) * 1000000000,
                  resp = nxt s\<rparr>)
             | [] \<Rightarrow> (cache s)(key := None))
        | Inl err \<Rightarrow> cache s) \<and>
     events s' = events s @
       [Logged DebugLevel ''process request'' [MsgField ''request'' req]] @
       map (\<lambda>d. Exchanged d req) (pre @ [u]) @
       (if isl (getKey req) \<or> Answer m = [] then []
        else [Logged DebugLevel ''cache response'' [MsgField ''req'' req, MsgField ''resp'' m]]) @
       [Logged InfoLevel ''succeed to get response'' [MsgField ''response'' m], Wrote m]"
proof -
  let ?s1 = "s\<lparr>cache := (case getKey req of Inr key \<Rightarrow> (cache s)(key := None) | Inl err \<Rightarrow> cache s),
                events := events s @ [Logged DebugLevel ''process request'' [MsgField ''request'' req]]\<rparr>"
  let ?s2 = "?s1\<lparr>events := events ?s1 @ map (\<lambda>u. Exchanged u req) pre, world := w1\<rparr>"
  have ok': "ClientExchange env (clientNet u) (addr u) req (world ?s2) = (Inr m, w2)"
    by (simp add: ok)
  have "forLoop env (pre @ u # post) req ?s1 = forLoop env (u # post) req ?s2"
    by (rule forLoop_allFail) (simp add: fails)
  then have run: "processDNSMsg env cs req s =
     (case forLoop env (u # post) req ?s2 of
        Inl p \<Rightarrow> Inl p
      | Inr (Return s2) \<Rightarrow> Inr s2
      | Inr (Fallthrough s2) \<Rightarrow>
          Inr (zlog ErrorLevel ''fail to process request'' [MsgField ''request'' req] s2))"
    by (simp only: processDNSMsg_miss [OF miss] cs)
  show ?thesis
  proof (cases "getKey req")
    case (Inl err)
    then show ?thesis
      unfolding run forLoop_success [OF ok'] by simp
  next
    case (Inr key)
    then show ?thesis
      unfolding run forLoop_success [OF ok'] by (cases "Answer m") simp_all
  qed
qed

theorem fallback_ordering_witness:
  "isl (fst (findResponse (Now exEnv (world exState)) exQuery exState)) \<and>
   allFail exEnv [U1, U2] exQuery (world exState) = Some 2 \<and>
   ClientExchange exEnv (clientNet U3) (addr U3) exQuery 2 = (Inr (exReply\<lparr>Id := 7\<rparr>), 3) \<and>
   servers exCS = [U1, U2] @ U3 # [] \<and>
   (\<exists>s'. processDNSMsg exEnv exCS exQuery exState = Inr s' \<and>
      heap s' 2 = exReply\<lparr>Id := 7\<rparr> \<and> world s' = 3 \<and>
      cache s' = [''example.com.-1'' \<mapsto> \<lparr>timeOut = 60000000003, resp = 2\<rparr>] \<and>
      events s' =
        [Logged DebugLevel ''process request'' [MsgField ''request'' exQuery],
         Exchanged U1 exQuery, Exchanged U2 exQuery, Exchanged U3 exQuery,
         Logged DebugLevel ''cache response'' [MsgField ''req'' exQuery, MsgField ''resp'' (exReply\<lparr>Id := 7\<rparr>)],
         Logged InfoLevel ''succeed to get response'' [MsgField ''response'' (exReply\<lparr>Id := 7\<rparr>)],
         Wrote (exReply\<lparr>Id := 7\<rparr>)])"
proof -
  have miss: "isl (fst (findResponse (Now exEnv (world exState)) exQuery exState))"
    by (simp add: findResponse_miss_iff getKey_exQuery evalState)
  have fails: "allFail exEnv [U1, U2] exQuery (world exState) = Some 2"
    by (simp add: evalExchange U1_def U2_def evalState)
  have ok: "ClientExchange exEnv (clientNet U3) (addr U3) exQuery 2 = (Inr (exReply\<lparr>Id := 7\<rparr>), 3)"
    by (simp add: evalExchange U3_def exQuery_def)
  have cs: "servers exCS = [U1, U2] @ U3 # []"
    by (simp add: exCS_def)
  have ans: "Answer (exReply\<lparr>Id := 7\<rparr>) = [exRR]" "uint (Ttl (Header exRR)) = 60"
    by (simp_all add: exReply_def exRR_def)
  obtain s' where "processDNSMsg exEnv exCS exQuery exState = Inr s'"
    "heap s' 2 = exReply\<lparr>Id := 7\<rparr>" "world s' = 3"
    "cache s' = [''example.com.-1'' \<mapsto> \<lparr>timeOut = 60000000003, resp = 2\<rparr>]"
    "events s' =
        [Logged DebugLevel ''process request'' [MsgField ''request'' exQuery],
         Exchanged U1 exQuery, Exchanged U2 exQuery, Exchanged U3 exQuery,
         Logged DebugLevel ''cache response'' [MsgField ''req'' exQuery, MsgField ''resp'' (exReply\<lparr>Id := 7\<rparr>)],
         Logged InfoLevel ''succeed to get response'' [MsgField ''response'' (exReply\<lparr>Id := 7\<rparr>)],
         Wrote (exReply\<lparr>Id := 7\<rparr>)]"
    using fallback_ordering [OF miss fails ok cs]
    by (auto simp: getKey_exQuery evalState evalExchange ans)
  with miss fails ok cs show ?thesis
    by blast
qed

text \<open>
  Claim C4, amended. When the lookup misses and every upstream's exchange returns
  an error (also when there is no upstream), the handler writes no reply and stores
  nothing: the events it adds are the line for the request, one exchange per
  upstream in order and the failure line, and the cache afterwards is the cache
  before without the entry under the key of the query, which the lookup removed
  if it had timed out. Every other entry is unchanged.
\<close>

theorem forwarding_failure:
  assumes miss: "isl (fst (findResponse (Now env (world s)) req s))"
    and fails: "allFail env (servers cs) req (world s) = Some w"
  shows "processDNSMsg env cs req s =
     Inr (s\<lparr>cache := (case getKey req of Inr key \<Rightarrow> (cache s)(key := None) | Inl err \<Rightarrow> cache s),
            events := events s @
              [Logged DebugLevel ''process request'' [MsgField ''request'' req]] @
              map (\<lambda>d. Exchanged d req) (servers cs) @
              [Logged ErrorLevel ''fail to process request'' [MsgField ''request'' req]],
            world := w\<rparr>)"
  using assms by (rule processDNSMsg_allFail)

theorem forwarding_failure_witness:
  "isl (fst (findResponse (Now exEnv (world exExpired)) exQuery exExpired)) \<and>
   allFail exEnv (servers exFailing) exQuery (world exExpired) = Some 12 \<and>
   processDNSMsg exEnv exFailing exQuery exExpired =
     Inr (exExpired\<lparr>cache := (cache exExpired)(''example.com.-1'' := None),
            events := events exExpired @
              [Logged DebugLevel ''process request'' [MsgField ''request'' exQuery],
               Exchanged U1 exQuery, Exchanged U2 exQuery,
               Logged ErrorLevel ''fail to process request'' [MsgField ''request'' exQuery]],
            world := 12\<rparr>)"
proof -
  have w: "world exExpired = 10" "cache exExpired ''example.com.-1'' = Some \<lparr>timeOut = 5, resp = 0\<rparr>"
    by (simp_all add: exExpired_def)
  have miss: "isl (fst (findResponse (Now exEnv (world exExpired)) exQuery exExpired))"
    by (simp add: findResponse_miss_iff getKey_exQuery w evalExchange isTimeout_def)
  have fails: "allFail exEnv (servers exFailing) exQuery (world exExpired) = Some 12"
    by (simp add: exFailing_def evalExchange U1_def U2_def w)
  have srv: "servers exFailing = [U1, U2]"
    by (simp add: exFailing_def)
  show ?thesis
    using miss fails forwarding_failure [OF miss fails]
    by (simp add: getKey_exQuery srv)
qed

text \<open>
  The cache does change on such a request when the miss came from an entry that
  had timed out: the entry is in the map before the request and gone after it,
  though both upstreams failed.
\<close>

theorem forwarding_failure_counterexample:
  "isl (fst (findResponse (Now exEnv (world exExpired)) exQuery exExpired)) \<and>
   allFail exEnv (servers exFailing) exQuery (world exExpired) = Some 12 \<and>
   cache exExpired ''example.com.-1'' = Some \<lparr>timeOut = 5, resp = 0\<rparr> \<and>
   \<not> isl (processDNSMsg exEnv exFailing exQuery exExpired) \<and>
   cache (projr (processDNSMsg exEnv exFailing exQuery exExpired)) ''example.com.-1'' = None"
proof -
  have w: "world exExpired = 10" "cache exExpired ''example.com.-1'' = Some \<lparr>timeOut = 5, resp = 0\<rparr>"
    by (simp_all add: exExpired_def)
  have miss: "isl (fst (findResponse (Now exEnv (world exExpired)) exQuery exExpired))"
    by (simp add: findResponse_miss_iff getKey_exQuery w evalExchange isTimeout_def)
  have fails: "allFail exEnv (servers exFailing) exQuery (world exExpired) = Some 12"
    by (simp add: exFailing_def evalExchange U1_def U2_def w)
  show ?thesis
    using miss fails w(2)
    by (simp add: processDNSMsg_allFail [OF miss fails] getKey_exQuery)
qed

text \<open>
  Claim C5. A store leaves the state as it is when the reply has no answer record
  or the query has no key. Otherwise it puts, under the key of the query, the
  pointer to the reply with the time-out at the instant of the store plus the time
  to live of the first answer record in seconds, and every other key keeps what it
  had; the message objects are not touched.
\<close>

theorem store_frame:
  "(Answer (heap s r) = [] \<or> isl (getKey req) \<longrightarrow> cacheResponse now req r s = Inr s) \<and>
   (Answer (heap s r) = rr # rrs \<and> getKey req = Inr key \<longrightarrow>
      (\<exists>s'. cacheResponse now req r s = Inr s' \<and>
            cache s' key =
              Some \<lparr>timeOut = now + int (unat (Ttl (Header rr))) * 1000000000, resp = r\<rparr> \<and>
            (\<forall>k. k \<noteq> key \<longrightarrow> cache s' k = cache s k) \<and>
            heap s' = heap s))"
  by (auto simp: cacheResponse_noop cacheResponse_store)

theorem store_frame_witness:
  "Answer (heap exState 1) = [] \<and> cacheResponse 5 exQuery 1 exState = Inr exState \<and>
   Answer (heap exState 0) = [exRR] \<and> getKey exQuery = Inr ''example.com.-1'' \<and>
   (\<exists>s'. cacheResponse 5 exQuery 0 exState = Inr s' \<and>
      cache s' ''example.com.-1'' = Some \<lparr>timeOut = 60000000005, resp = 0\<rparr> \<and>
      cache s' ''example.org.-28'' = cache exState ''example.org.-28'' \<and>
      heap s' = heap exState)"
proof -
  have a: "Answer (heap exState 1) = []"
    by (simp add: exState_def exEmptyReply_def)
  have b: "Answer (heap exState 0) = exRR # []"
    by (simp add: exState_def exReply_def)
  have t: "int (unat (Ttl (Header exRR))) = 60"
    by (simp add: exRR_def)
  show ?thesis
    using a b getKey_exQuery t
      store_frame [of exState 1 exQuery 5 exRR "[]" "''example.com.-1''"]
      store_frame [of exState 0 exQuery 5 exRR "[]" "''example.com.-1''"]
    by auto
qed

text \<open>
  Claim C6. Storing the same query and reply twice at the same instant gives the
  cache that storing them once gives, and the store never panics. When the query
  has a key and the reply an answer record, that cache is the cache before with
  one entry under the key of the query, the entry of the single store: the pointer
  to the reply with the time-out at the instant of the store plus the time to live
  of the first answer record; every other key keeps what it had. When the query
  has no key or the reply no answer record, both stores leave the cache as it was.
  The message objects are not touched.
\<close>

theorem store_idempotent:
  "\<exists>s1 s2. cacheResponse now req r s = Inr s1 \<and> cacheResponse now req r s1 = Inr s2 \<and>
     cache s2 = cache s1 \<and> heap s2 = heap s1 \<and> heap s1 = heap s \<and>
     (\<forall>key rr rrs. getKey req = Inr key \<and> Answer (heap s r) = rr # rrs \<longrightarrow>
        cache s1 = (cache s)(key \<mapsto>
          \<lparr>timeOut = now + int (unat (Ttl (Header rr))) * 1000000000, resp = r\<rparr>) \<and>
        cache s2 key =
          Some \<lparr>timeOut = now + int (unat (Ttl (Header rr))) * 1000000000, resp = r\<rparr> \<and>
        (\<forall>k. k \<noteq> key \<longrightarrow> cache s2 k = cache s k)) \<and>
     (isl (getKey req) \<or> Answer (heap s r) = [] \<longrightarrow> cache s1 = cache s \<and> cache s2 = cache s)"
proof (cases "Answer (heap s r)")
  case Nil
  then show ?thesis by (simp add: cacheResponse_noop)
next
  case (Cons rr rrs)
  show ?thesis
  proof (cases "getKey req")
    case (Inl err)
    then show ?thesis by (simp add: cacheResponse_noop)
  next
    case (Inr key)
    let ?item = "\<lparr>timeOut = now + int (unat (Ttl (Header rr))) * 1000000000, resp = r\<rparr>"
    let ?s1 = "s\<lparr>cache := (cache s)(key \<mapsto> ?item),
                 events := events s @
                   [Logged DebugLevel ''cache response''
                      [MsgField ''req'' req, MsgField ''resp'' (heap s r)]]\<rparr>"
    have one: "cacheResponse now req r s = Inr ?s1"
      by (rule cacheResponse_store [OF Cons Inr])
    have ans: "Answer (heap ?s1 r) = rr # rrs"
      by (simp add: Cons)
    let ?s2 = "?s1\<lparr>cache := (cache ?s1)(key \<mapsto> ?item),
               events := events ?s1 @
                 [Logged DebugLevel ''cache response''
                    [MsgField ''req'' req, MsgField ''resp'' (heap ?s1 r)]]\<rparr>"
    have two: "cacheResponse now req r ?s1 = Inr ?s2"
      by (rule cacheResponse_store [OF ans Inr])
    have rest: "cache ?s2 = cache ?s1 \<and> heap ?s2 = heap ?s1 \<and> heap ?s1 = heap s \<and>
     (\<forall>key rr rrs. getKey req = Inr key \<and> Answer (heap s r) = rr # rrs \<longrightarrow>
        cache ?s1 = (cache s)(key \<mapsto>
          \<lparr>timeOut = now + int (unat (Ttl (Header rr))) * 1000000000, resp = r\<rparr>) \<and>
        cache ?s2 key =
          Some \<lparr>timeOut = now + int (unat (Ttl (Header rr))) * 1000000000, resp = r\<rparr> \<and>
        (\<forall>k. k \<noteq> key \<longrightarrow> cache ?s2 k = cache s k)) \<and>
     (isl (getKey req) \<or> Answer (heap s r) = [] \<longrightarrow> cache ?s1 = cache s \<and> cache ?s2 = cache s)"
      using Cons Inr by simp
    show ?thesis
      by (rule exI [of _ ?s1], rule exI [of _ ?s2]) (intro conjI one two rest [THEN conjunct1]
          rest [THEN conjunct2, THEN conjunct1] rest [THEN conjunct2, THEN conjunct2, THEN conjunct1]
          rest [THEN conjunct2, THEN conjunct2, THEN conjunct2, THEN conjunct1]
          rest [THEN conjunct2, THEN conjunct2, THEN conjunct2, THEN conjunct2])
  qed
qed

theorem store_idempotent_witness:
  "getKey exQuery = Inr ''example.com.-1'' \<and> Answer (heap exState 0) = [exRR] \<and>
   (\<exists>s1 s2. cacheResponse 5 exQuery 0 exState = Inr s1 \<and>
      cacheResponse 5 exQuery 0 s1 = Inr s2 \<and>
      cache s1 = [''example.com.-1'' \<mapsto> \<lparr>timeOut = 60000000005, resp = 0\<rparr>] \<and>
      cache s2 = [''example.com.-1'' \<mapsto> \<lparr>timeOut = 60000000005, resp = 0\<rparr>] \<and>
      heap s2 = heap exState) \<and>
   isl (getKey exQueryMX) \<and>
   (\<exists>s1 s2. cacheResponse 5 exQueryMX 0 exState = Inr s1 \<and>
      cacheResponse 5 exQueryMX 0 s1 = Inr s2 \<and>
      cache s1 = cache exState \<and> cache s2 = cache exState)"
proof -
  have b: "Answer (heap exState 0) = exRR # []"
    by (simp add: exState_def exReply_def)
  have t: "int (unat (Ttl (Header exRR))) = 60"
    by (simp add: exRR_def)
  obtain s1 s2 where r: "cacheResponse 5 exQuery 0 exState = Inr s1"
    "cacheResponse 5 exQuery 0 s1 = Inr s2" "cache s2 = cache s1" "heap s2 = heap s1"
    "heap s1 = heap exState"
    "\<forall>key rr rrs. getKey exQuery = Inr key \<and> Answer (heap exState 0) = rr # rrs \<longrightarrow>
        cache s1 = (cache exState)(key \<mapsto>
          \<lparr>timeOut = 5 + int (unat (Ttl (Header rr))) * 1000000000, resp = 0\<rparr>)"
    using store_idempotent [of 5 exQuery 0 exState] by blast
  have "cache s1 = (cache exState)(''example.com.-1'' \<mapsto>
          \<lparr>timeOut = 5 + int (unat (Ttl (Header exRR))) * 1000000000, resp = 0\<rparr>)"
    using r(6) getKey_exQuery b by blast
  then have c: "cache s1 = [''example.com.-1'' \<mapsto> \<lparr>timeOut = 60000000005, resp = 0\<rparr>]"
    unfolding t by (simp add: evalState)
  have mx: "isl (getKey exQueryMX)"
    by (simp add: getKey_exQueryMX)
  have noop: "\<exists>s1 s2. cacheResponse 5 exQueryMX 0 exState = Inr s1 \<and>
      cacheResponse 5 exQueryMX 0 s1 = Inr s2 \<and>
      cache s1 = cache exState \<and> cache s2 = cache exState"
    using store_idempotent [of 5 exQueryMX 0 exState] mx by blast
  have stored: "\<exists>s1 s2. cacheResponse 5 exQuery 0 exState = Inr s1 \<and>
      cacheResponse 5 exQuery 0 s1 = Inr s2 \<and>
      cache s1 = [''example.com.-1'' \<mapsto> \<lparr>timeOut = 60000000005, resp = 0\<rparr>] \<and>
      cache s2 = [''example.com.-1'' \<mapsto> \<lparr>timeOut = 60000000005, resp = 0\<rparr>] \<and>
      heap s2 = heap exState"
    using r(1,2,3,4,5) c by auto
  show ?thesis
    using getKey_exQuery b stored mx noop by simp
qed

text \<open>
  Claim C7. An address that starts with \<^verbatim>\<open>udp:\<close> parses to UDP and the rest of the
  string, one that starts with \<^verbatim>\<open>tcp:\<close> to TCP and the rest, any other to UDP and
  the string itself; upstream addresses are parsed by the same function as listen
  addresses.
\<close>

theorem address_parsing_rule:
  "parseListenAddr (''udp:'' @ r) = (''udp'', r, None) \<and>
   parseListenAddr (''tcp:'' @ r) = (''tcp'', r, None) \<and>
   ((\<nexists>r. s = ''udp:'' @ r) \<and> (\<nexists>r. s = ''tcp:'' @ r) \<longrightarrow> parseListenAddr s = (''udp'', s, None)) \<and>
   parseDNSServerAddr s = parseListenAddr s"
  by (simp add: parse_udp parse_tcp parse_other HasPrefix_iff parseDNSServerAddr_def del: append.simps)

theorem address_parsing_rule_witness:
  "parseListenAddr ''udp:127.0.0.1:53'' = (''udp'', ''127.0.0.1:53'', None) \<and>
   parseListenAddr ''tcp:127.0.0.1:53'' = (''tcp'', ''127.0.0.1:53'', None) \<and>
   (\<nexists>r. ''8.8.8.8:53'' = ''udp:'' @ r) \<and> (\<nexists>r. ''8.8.8.8:53'' = ''tcp:'' @ r) \<and>
   parseListenAddr ''8.8.8.8:53'' = (''udp'', ''8.8.8.8:53'', None) \<and>
   parseDNSServerAddr ''8.8.8.8:53'' = (''udp'', ''8.8.8.8:53'', None)"
  using address_parsing_rule [of "''127.0.0.1:53''" "''8.8.8.8:53''"]
  by simp

text \<open>
  Claim C8, amended. A cache server with at least one listen address registers its
  handler in the DNS library's one default handler table, under the root pattern
  and over what was registered there, and the listeners it starts have no handler
  of their own. After its start, every listener without a handler of its own, of
  whichever server, serves with this server's handler.
\<close>

theorem start_registers_globally:
  assumes "listenAddrs cs \<noteq> []"
  shows "mux (snd (start env this cs s)) = (mux s)(''.'' \<mapsto> ProcessDNSMsg this) \<and>
    (\<exists>evs. events (snd (start env this cs s)) = events s @ evs \<and>
       (\<forall>srv. Listened srv \<in> set evs \<longrightarrow> Handler srv = None)) \<and>
    (\<forall>srv. Handler srv = None \<longrightarrow> serving (snd (start env this cs s)) srv = Some (ProcessDNSMsg this))"
proof -
  obtain evs where evs: "events (snd (start env this cs s)) = events s @ evs" "list_all startEvent evs"
    using start_listeners by blast
  have "\<forall>srv. Listened srv \<in> set evs \<longrightarrow> Handler srv = None"
    using evs(2) startEvent_Listened by (auto simp: list_all_iff)
  with evs(1) show ?thesis
    by (auto simp: start_mux [OF assms] serving_def)
qed

theorem start_registers_globally_witness:
  "listenAddrs exOther \<noteq> [] \<and>
   mux (snd (start exEnv 2 exOther exStarted)) = (mux exStarted)(''.'' \<mapsto> ProcessDNSMsg 2) \<and>
   Handler exListener = None \<and>
   serving (snd (start exEnv 2 exOther exStarted)) exListener = Some (ProcessDNSMsg 2)"
proof -
  have ne: "listenAddrs exOther \<noteq> []"
    by (simp add: exOther_def)
  have h: "Handler exListener = None"
    by (simp add: exListener_def)
  show ?thesis
    using ne h start_registers_globally [OF ne, of exEnv 2 exStarted]
    by simp
qed

text \<open>
  Starting a second server changes the handler the listener of the first one
  invokes: the shared table held the first server's handler before and holds the
  second's after, and the listener the second server starts has no handler of its
  own.
\<close>

theorem start_registers_globally_counterexample:
  "Handler exListener = None \<and>
   serving exStarted exListener = Some (ProcessDNSMsg 1) \<and>
   serving (snd (start exEnv 2 exOther exStarted)) exListener = Some (ProcessDNSMsg 2) \<and>
   mux exStarted ''.'' = Some (ProcessDNSMsg 1) \<and>
   mux (snd (start exEnv 2 exOther exStarted)) ''.'' = Some (ProcessDNSMsg 2) \<and>
   events (snd (start exEnv 2 exOther exStarted)) =
     [Logged InfoLevel ''start tcp DNS server'' [StrField ''address'' ''0.0.0.0:5353''],
      Listened \<lparr>Addr = ''0.0.0.0:5353'', Net = ''tcp'', Handler = None\<rparr>]"
  by (simp add: start_exOther serving_def exListener_def exStarted_def evalState)

text \<open>
  Claim C9. On a hit the lookup returns the pointer kept in the cache, and the
  handler writes the identifier of the query into the object behind it before it
  writes the reply. After the request the cache holds the same item, the object it
  points to carries the identifier of that requester, and any later hit for the
  key returns this same object.
\<close>

theorem hit_rewrites_stored_reply:
  assumes key: "getKey req = Inr key" and item: "cache s key = Some item"
    and fresh: "\<not> isTimeout (Now env (world s)) item"
  shows "fst (findResponse (Now env (world s)) req s) = Inr (resp item) \<and>
    (\<exists>s'. processDNSMsg env cs req s = Inr s' \<and>
       cache s' = cache s \<and>
       heap s' = (heap s)(resp item := (heap s (resp item))\<lparr>Id := Id req\<rparr>) \<and>
       Id (heap s' (resp item)) = Id req \<and>
       events s' = events s @
         [Logged DebugLevel ''process request'' [MsgField ''request'' req],
          Logged DebugLevel ''find response from cache''
            [MsgField ''req'' req, MsgField ''resp'' (heap s (resp item))],
          Wrote ((heap s (resp item))\<lparr>Id := Id req\<rparr>)] \<and>
       (\<forall>now' req'. getKey req' = Inr key \<and> \<not> isTimeout now' item \<longrightarrow>
          fst (findResponse now' req' s') = Inr (resp item) \<and>
          Id (heap (snd (findResponse now' req' s')) (resp item)) = Id req))"
proof -
  let ?s0 = "zlog DebugLevel ''process request'' [MsgField ''request'' req] s"
  have "findResponse (Now env (world ?s0)) req ?s0 =
     (Inr (resp item),
      ?s0\<lparr>events := events ?s0 @
           [Logged DebugLevel ''find response from cache''
              [MsgField ''req'' req, MsgField ''resp'' (heap ?s0 (resp item))]]\<rparr>)"
    by (rule findResponse_hit [OF key]) (simp_all add: item fresh zlog_def)
  then have "processDNSMsg env cs req s =
     Inr (s\<lparr>heap := (heap s)(resp item := (heap s (resp item))\<lparr>Id := Id req\<rparr>),
            events := events s @
              [Logged DebugLevel ''process request'' [MsgField ''request'' req],
               Logged DebugLevel ''find response from cache''
                 [MsgField ''req'' req, MsgField ''resp'' (heap s (resp item))],
               Wrote ((heap s (resp item))\<lparr>Id := Id req\<rparr>)]\<rparr>)"
    by (simp add: processDNSMsg_def Let_def zlog_def WriteMsg_def)
  then show ?thesis
    by (simp add: findResponse_def key item fresh zlog_def)
qed

theorem hit_rewrites_stored_reply_witness:
  "getKey exQuery = Inr ''example.com.-1'' \<and>
   cache exCached ''example.com.-1'' = Some \<lparr>timeOut = 60000000000, resp = 0\<rparr> \<and>
   \<not> isTimeout (Now exEnv (world exCached)) \<lparr>timeOut = 60000000000, resp = 0\<rparr> \<and>
   Id (heap exCached 0) = 3 \<and>
   fst (findResponse (Now exEnv (world exCached)) exQuery exCached) = Inr 0 \<and>
   (\<exists>s'. processDNSMsg exEnv exCS exQuery exCached = Inr s' \<and>
      cache s' = cache exCached \<and>
      Id (heap s' 0) = 7 \<and>
      last (events s') = Wrote (exReply\<lparr>Id := 7\<rparr>) \<and>
      fst (findResponse 40000000000 exQuery s') = Inr 0 \<and>
      Id (heap (snd (findResponse 40000000000 exQuery s')) 0) = 7)"
proof -
  let ?item = "\<lparr>timeOut = 60000000000, resp = 0\<rparr>"
  have item: "cache exCached ''example.com.-1'' = Some ?item"
    by (simp add: exCached_def)
  have fresh: "\<not> isTimeout (Now exEnv (world exCached)) ?item"
    by (simp add: isTimeout_def evalExchange exCached_def)
  have later: "\<not> isTimeout 40000000000 ?item"
    by (simp add: isTimeout_def)
  have h: "heap exCached 0 = exReply" "Id exReply = 3" "Id exQuery = 7"
    by (simp_all add: exCached_def evalState exReply_def exQuery_def)
  obtain s' where s': "processDNSMsg exEnv exCS exQuery exCached = Inr s'"
    "cache s' = cache exCached"
    "heap s' = (heap exCached)(resp ?item := (heap exCached (resp ?item))\<lparr>Id := Id exQuery\<rparr>)"
    "Id (heap s' (resp ?item)) = Id exQuery"
    "events s' = events exCached @
         [Logged DebugLevel ''process request'' [MsgField ''request'' exQuery],
          Logged DebugLevel ''find response from cache''
            [MsgField ''req'' exQuery, MsgField ''resp'' (heap exCached (resp ?item))],
          Wrote ((heap exCached (resp ?item))\<lparr>Id := Id exQuery\<rparr>)]"
    "\<forall>now' req'. getKey req' = Inr ''example.com.-1'' \<and> \<not> isTimeout now' ?item \<longrightarrow>
          fst (findResponse now' req' s') = Inr (resp ?item) \<and>
          Id (heap (snd (findResponse now' req' s')) (resp ?item)) = Id exQuery"
    using hit_rewrites_stored_reply [OF getKey_exQuery item fresh, of exCS] by blast
  have first: "fst (findResponse (Now exEnv (world exCached)) exQuery exCached) = Inr 0"
    using hit_rewrites_stored_reply [OF getKey_exQuery item fresh, of exCS] by simp
  have "fst (findResponse 40000000000 exQuery s') = Inr 0 \<and>
      Id (heap (snd (findResponse 40000000000 exQuery s')) 0) = 7"
    using s'(6) getKey_exQuery later h by simp
  then show ?thesis
    using getKey_exQuery item fresh first s'(1,2,4,5) h by simp
qed

text \<open>
  Claim C10. Parsing an address never fails and yields \<^verbatim>\<open>udp\<close> or \<^verbatim>\<open>tcp\<close>.
  Hence \<^verbatim>\<open>NewDNSServer\<close> never returns an error and \<^verbatim>\<open>NewCacheServer\<close> keeps
  every configured upstream, in order; and \<^verbatim>\<open>start\<close> never takes its two
  branches that log at level Error, so that an error it returns is an error a
  listener returned.
\<close>

theorem parsing_never_fails:
  "(\<exists>proto a. parseListenAddr x = (proto, a, None) \<and> (proto = ''udp'' \<or> proto = ''tcp'')) \<and>
   (\<exists>proto a. parseDNSServerAddr x = (proto, a, None) \<and> (proto = ''udp'' \<or> proto = ''tcp'')) \<and>
   (\<exists>ds. NewDNSServer x s = (Inr ds, s)) \<and>
   NewCacheServer las srvs s =
     (\<lparr>listenAddrs = las,
       servers = map (\<lambda>server. \<lparr>clientNet = fst (parseDNSServerAddr server),
                                  addr = fst (snd (parseDNSServerAddr server))\<rparr>) srvs\<rparr>,
      s\<lparr>cache := NewDNSCache\<rparr>) \<and>
   (\<exists>evs. events (snd (start env this cs s)) = events s @ evs \<and> filter errorLogged evs = []) \<and>
   (\<forall>e. fst (start env this cs s) = Returned (Some e) \<longrightarrow>
      (\<exists>srv w. fst (ListenAndServe env srv w) = Returned (Some e)))"
proof -
  obtain evs where evs: "events (snd (start env this cs s)) = events s @ evs" "list_all startEvent evs"
    using start_listeners by blast
  have "filter errorLogged evs = []"
    using evs(2) startEvent_not_error by (auto simp: list_all_iff filter_empty_conv)
  with evs(1) have a: "\<exists>evs. events (snd (start env this cs s)) = events s @ evs \<and> filter errorLogged evs = []"
    by blast
  have b: "\<forall>e. fst (start env this cs s) = Returned (Some e) \<longrightarrow>
      (\<exists>srv w. fst (ListenAndServe env srv w) = Returned (Some e))"
    unfolding start_def using startLoop_error by blast
  show ?thesis
    using a b parse_cases [of x]
    by (simp add: parseDNSServerAddr_def NewDNSServer_eq NewCacheServer_def newServers_eq)
qed

theorem parsing_never_fails_witness:
  "fst (start exEnv 2 exOther exState) = Returned (Some (NetError ''bind: address already in use'')) \<and>
   fst (ListenAndServe exEnv \<lparr>Addr = ''0.0.0.0:5353'', Net = ''tcp'', Handler = None\<rparr> 0) =
     Returned (Some (NetError ''bind: address already in use'')) \<and>
   parseListenAddr ''tcp:0.0.0.0:5353'' = (''tcp'', ''0.0.0.0:5353'', None) \<and>
   servers (fst (NewCacheServer [''0.0.0.0:53''] [''10.0.0.1:53'', ''tcp:10.0.0.2:53'', ''udp:10.0.0.3:53''] exState))
     = [U1, U2, U3]"
proof -
  have l: "fst (ListenAndServe exEnv \<lparr>Addr = ''0.0.0.0:5353'', Net = ''tcp'', Handler = None\<rparr> 0) =
     Returned (Some (NetError ''bind: address already in use''))"
    by (simp add: exEnv_def)
  have p: "parseListenAddr ''10.0.0.1:53'' = (''udp'', ''10.0.0.1:53'', None)"
    "parseListenAddr ''tcp:10.0.0.2:53'' = (''tcp'', ''10.0.0.2:53'', None)"
    "parseListenAddr ''udp:10.0.0.3:53'' = (''udp'', ''10.0.0.3:53'', None)"
    "parseListenAddr ''tcp:0.0.0.0:5353'' = (''tcp'', ''0.0.0.0:5353'', None)"
    by (simp_all add: parseListenAddr_def HasPrefix_def)
  show ?thesis
    using l p
      parsing_never_fails [of "''tcp:0.0.0.0:5353''" exState "[''0.0.0.0:53'']"
        "[''10.0.0.1:53'', ''tcp:10.0.0.2:53'', ''udp:10.0.0.3:53'']" exEnv 2 exOther]
    by (simp add: start_exOther parseDNSServerAddr_def U1_def U2_def U3_def)
qed

section \<open>The earlier cache server does the same\<close>

text \<open>
  Without the log lines \<^verbatim>\<open>send request to DNS server\<close>, the earlier handler on a
  state is the handler above on the upstreams its strings stand for; and the
  earlier \<^verbatim>\<open>start\<close> is \<^verbatim>\<open>start\<close> on the one listen address. What is proved of
  the handler's replies, exchanges, cache and message objects, and of the
  registration of the handler, therefore holds of both forms.
\<close>

lemma hush_simps [simp]:
  "heap (hush s) = heap s" "nxt (hush s) = nxt s" "cache (hush s) = cache s"
  "mux (hush s) = mux s" "world (hush s) = world s"
  by (simp_all add: hush_def)

lemma hush_zlog_send:
  "hush (zlog InfoLevel ''send request to DNS server'' fs s) = hush s"
  by (simp add: hush_def zlog_def sendLine_def)

lemma hush_zlog:
  "m \<noteq> ''send request to DNS server'' \<Longrightarrow> hush (zlog l m fs s) = zlog l m fs (hush s)"
  by (simp add: hush_def zlog_def sendLine_def)

lemma hush_WriteMsg: "hush (WriteMsg r s) = WriteMsg r (hush s)"
  by (simp add: hush_def WriteMsg_def sendLine_def)

lemma hush_Exchange:
  "Exchange env u req (hush s) = (fst (Exchange env u req s), hush (snd (Exchange env u req s)))"
  by (simp add: Exchange_def hush_def sendLine_def Let_def split: prod.splits sum.splits)

lemma hush_cacheResponse:
  "cacheResponse now req r (hush s) = map_sum id hush (cacheResponse now req r s)"
proof (cases "Answer (heap s r)")
  case Nil
  then show ?thesis by (simp add: cacheResponse_noop)
next
  case (Cons rr rrs)
  then show ?thesis
    by (cases "getKey req")
       (simp_all add: cacheResponse_noop cacheResponse_store, simp add: hush_def sendLine_def)
qed

lemma hush_findResponse:
  "findResponse now req (hush s) = (fst (findResponse now req s), hush (snd (findResponse now req s)))"
  by (simp add: findResponse_def hush_zlog split: sum.splits option.splits) (simp add: hush_def)

lemma zlog_sel [simp]:
  "heap (zlog l m fs s) = heap s" "nxt (zlog l m fs s) = nxt s" "cache (zlog l m fs s) = cache s"
  "mux (zlog l m fs s) = mux s" "world (zlog l m fs s) = world s"
  by (simp_all add: zlog_def)

lemma forLoop0_Cons:
  "forLoop0 env (server # rest) req s =
     (case Exchange env (upstream server) req
             (zlog InfoLevel ''send request to DNS server'' [StrField ''server'' server] s) of
        (Inr r, s1) \<Rightarrow>
          (case cacheResponse (Now env (world s1)) req r s1 of
             Inl p \<Rightarrow> Inl p
           | Inr s2 \<Rightarrow>
               Inr (Return (WriteMsg r
                 (zlog InfoLevel ''succeed to get response'' [MsgField ''response'' (heap s2 r)] s2))))
      | (Inl err', s1) \<Rightarrow> forLoop0 env rest req s1)"
  by (simp add: upstream_def Let_def split: prod.splits)

lemma hush_forLoop0:
  "map_sum id (map_ctl hush) (forLoop0 env srvs req s) = forLoop env (map upstream srvs) req (hush s)"
proof (induction srvs arbitrary: s)
  case Nil
  then show ?case by simp
next
  case (Cons server srvs)
  let ?s0 = "zlog InfoLevel ''send request to DNS server'' [StrField ''server'' server] s"
  obtain res s1 where ex: "Exchange env (upstream server) req ?s0 = (res, s1)"
    by (cases "Exchange env (upstream server) req ?s0")
  then have ex': "Exchange env (upstream server) req (hush s) = (res, hush s1)"
    using hush_Exchange [of env "upstream server" req ?s0] by (simp add: hush_zlog_send)
  show ?case
  proof (cases res)
    case (Inl err)
    with ex ex' Cons.IH [of s1] show ?thesis
      by (simp add: forLoop.simps(2) forLoop0_Cons del: forLoop0.simps)
  next
    case (Inr r)
    obtain s2 where s2: "cacheResponse (Now env (world s1)) req r s1 = Inr s2"
      using cacheResponse_total by blast
    then have "cacheResponse (Now env (world s1)) req r (hush s1) = Inr (hush s2)"
      by (simp add: hush_cacheResponse)
    with Inr ex ex' s2 show ?thesis
      by (simp add: forLoop.simps(2) forLoop0_Cons hush_WriteMsg hush_zlog del: forLoop0.simps)
  qed
qed

lemma hush_processDNSMsg0:
  "map_sum id hush (processDNSMsg0 env cs req s) =
     processDNSMsg env \<lparr>listenAddrs = [listenAddr0 cs], servers = map upstream (servers0 cs)\<rparr> req (hush s)"
proof -
  let ?s0 = "zlog DebugLevel ''process request'' [MsgField ''request'' req] s"
  let ?h0 = "zlog DebugLevel ''process request'' [MsgField ''request'' req] (hush s)"
  obtain res s1 where f: "findResponse (Now env (world s)) req ?s0 = (res, s1)"
    by (cases "findResponse (Now env (world s)) req ?s0")
  have "?h0 = hush ?s0"
    by (simp add: hush_zlog)
  then have f': "findResponse (Now env (world s)) req ?h0 = (res, hush s1)"
    using hush_findResponse [of "Now env (world s)" req ?s0] f by simp
  show ?thesis
  proof (cases res)
    case (Inr r)
    have "hush (WriteMsg r (s1\<lparr>heap := (heap s1)(r := (heap s1 r)\<lparr>Id := Id req\<rparr>)\<rparr>)) =
        WriteMsg r ((hush s1)\<lparr>heap := (heap s1)(r := (heap s1 r)\<lparr>Id := Id req\<rparr>)\<rparr>)"
      by (simp add: hush_def WriteMsg_def sendLine_def)
    with Inr f f' show ?thesis
      by (simp add: processDNSMsg0_def processDNSMsg_def Let_def)
  next
    case (Inl err)
    show ?thesis
    proof (cases "forLoop0 env (servers0 cs) req s1")
      case (Inl p)
      then have "forLoop env (map upstream (servers0 cs)) req (hush s1) = Inl p"
        using hush_forLoop0 [of env "servers0 cs" req s1] by simp
      with Inl \<open>res = Inl err\<close> f f' show ?thesis
        by (simp add: processDNSMsg0_def processDNSMsg_def Let_def)
    next
      case (Inr c)
      then have "forLoop env (map upstream (servers0 cs)) req (hush s1) = Inr (map_ctl hush c)"
        using hush_forLoop0 [of env "servers0 cs" req s1] by simp
      with Inr \<open>res = Inl err\<close> f f' show ?thesis
        by (cases c) (simp_all add: processDNSMsg0_def processDNSMsg_def Let_def hush_zlog)
    qed
  qed
qed

lemma start0_start:
  "start0 env this cs s = start env this \<lparr>listenAddrs = [listenAddr0 cs], servers = us\<rparr> s"
proof -
  obtain proto a where p: "parseListenAddr (listenAddr0 cs) = (proto, a, None)"
    "proto = ''udp'' \<or> proto = ''tcp''"
    using parse_cases by blast
  then show ?thesis
    by (auto simp: start0_def start_def startLoop.simps(2) split: prod.splits lns.splits option.splits)
qed

end
